theory Spec2Isabelle
  imports Complex_Main "HOL-Library.Log_Nat"
begin

section \<open>Path planner\<close>

text \<open>
  The grid generator hands the sweep line and the polygon to the geometry library's
  \<open>lineIntersect\<close>; the planner below takes that routine as a parameter.  Points are
  (longitude, latitude) pairs, waypoints (longitude, latitude, altitude) triples.  An
  empty polygon makes the source fail on its first index (\<open>TypeError\<close>), and the
  library rejects a ring of fewer than four positions.  The sweep is a loop that ends
  only when the latitude passes the top of the bounding box: \<open>None\<close> is a sweep that
  never ends.  Latitudes and longitudes are read as real numbers; what is proved of the
  sweep further down is what does not depend on the rounding of the source's doubles:
  that a spacing of zero or below never advances it, that the crosshatch generator
  repeats it whatever it does, and a sweep in steps of half a degree, whose sums are
  exact.
\<close>

type_synonym point = "real \<times> real"

datatype PlannerError = TypeError | InvalidLinearRing

type_synonym lineIntersect = "point \<times> point \<Rightarrow> point list \<Rightarrow> point list"

definition closeRing :: "point list \<Rightarrow> point list" where
  "closeRing polygon = (if hd polygon \<noteq> last polygon then polygon @ [hd polygon] else polygon)"

definition bbox :: "point list \<Rightarrow> real \<times> real \<times> real \<times> real" where
  "bbox coords =
     (fold min (map fst (tl coords)) (fst (hd coords)),
      fold min (map snd (tl coords)) (snd (hd coords)),
      fold max (map fst (tl coords)) (fst (hd coords)),
      fold max (map snd (tl coords)) (snd (hd coords)))"

record Sweep =
  intersect :: lineIntersect
  ring :: "point list"
  flightAltitude :: real
  minLng :: real
  maxLng :: real
  maxLat :: real
  spacingDegrees :: real

definition sweepLine :: "Sweep \<Rightarrow> real \<Rightarrow> int \<Rightarrow> (real \<times> real \<times> real) list" where
  "sweepLine g currentLat direction =
     (let lineStart = (if direction = 1 then (minLng g, currentLat) else (maxLng g, currentLat));
          lineEnd = (if direction = 1 then (maxLng g, currentLat) else (minLng g, currentLat));
          points = intersect g (lineStart, lineEnd) (ring g)
      in if length points \<ge> 2
         then (if direction = 1
               then [(fst (hd points), snd (hd points), flightAltitude g),
                     (fst (last points), snd (last points), flightAltitude g)]
               else [(fst (last points), snd (last points), flightAltitude g),
                     (fst (hd points), snd (hd points), flightAltitude g)])
         else [])"

partial_function (option) grid_sweep ::
  "Sweep \<Rightarrow> real \<Rightarrow> int \<Rightarrow> (real \<times> real \<times> real) list \<Rightarrow> (real \<times> real \<times> real) list option" where
  "grid_sweep g currentLat direction path =
     (if currentLat \<le> maxLat g
      then grid_sweep g (currentLat + spacingDegrees g) (direction * (- 1))
             (path @ sweepLine g currentLat direction)
      else Some path)"


declare grid_sweep.simps [simp del]

text \<open>
  \<open>generateGridPattern\<close>.  The fourth parameter of the source, the grid angle, is
  never read.
\<close>

definition generateGridPattern ::
  "lineIntersect \<Rightarrow> point list \<Rightarrow> real \<Rightarrow> real \<Rightarrow> real
     \<Rightarrow> (PlannerError + (real \<times> real \<times> real) list) option" where
  "generateGridPattern isect polygon altitude spacing angle =
     (if polygon = [] then Some (Inl TypeError)
      else
        (let coords = closeRing polygon
         in if length coords < 4 then Some (Inl InvalidLinearRing)
            else
              (case bbox coords of
                 (minLng', minLat', maxLng', maxLat') \<Rightarrow>
                   map_option Inr
                     (grid_sweep
                        \<lparr>intersect = isect, ring = coords, flightAltitude = altitude,
                          minLng = minLng', maxLng = maxLng', maxLat = maxLat',
                          spacingDegrees = spacing / 111320\<rparr>
                        minLat' 1 []))))"

definition generateCrosshatchPattern ::
  "lineIntersect \<Rightarrow> point list \<Rightarrow> real \<Rightarrow> real
     \<Rightarrow> (PlannerError + (real \<times> real \<times> real) list) option" where
  "generateCrosshatchPattern isect polygon altitude spacing =
     (case generateGridPattern isect polygon altitude spacing 0 of
        None \<Rightarrow> None
      | Some (Inl e) \<Rightarrow> Some (Inl e)
      | Some (Inr grid1) \<Rightarrow>
          (case generateGridPattern isect polygon altitude spacing 90 of
             None \<Rightarrow> None
           | Some (Inl e) \<Rightarrow> Some (Inl e)
           | Some (Inr grid2) \<Rightarrow> Some (Inr (grid1 @ grid2))))"

text \<open>
  The crosshatch pattern in the words of the specification: the grid is run twice, the
  second pass without a rotation of the sweep axis, and the two sequences, which are the
  same, are concatenated.
\<close>

definition twoIdenticalGrids ::
  "lineIntersect \<Rightarrow> point list \<Rightarrow> real \<Rightarrow> real
     \<Rightarrow> (PlannerError + (real \<times> real \<times> real) list) option" where
  "twoIdenticalGrids isect polygon altitude spacing =
     map_option (map_sum id (\<lambda>grid. grid @ grid))
       (generateGridPattern isect polygon altitude spacing 0)"

text \<open>
  A concrete intersection routine to put in the place of the library's, which is not part
  of the sources: the sweep line is cut with each edge of the ring in turn by the usual
  parametric formula (end points included, parallel segments give nothing), and of a
  point that is found more than once the first occurrence is kept.  The order in which
  the library returns the points depends on its version; nothing below depends on the
  points this routine returns or on their order.
\<close>

definition intersects :: "point \<times> point \<Rightarrow> point \<times> point \<Rightarrow> point option" where
  "intersects line1 line2 =
     (let x1 = fst (fst line1); y1 = snd (fst line1);
          x2 = fst (snd line1); y2 = snd (snd line1);
          x3 = fst (fst line2); y3 = snd (fst line2);
          x4 = fst (snd line2); y4 = snd (snd line2);
          denom = (y4 - y3) * (x2 - x1) - (x4 - x3) * (y2 - y1);
          numeA = (x4 - x3) * (y1 - y3) - (y4 - y3) * (x1 - x3);
          numeB = (x2 - x1) * (y1 - y3) - (y2 - y1) * (x1 - x3)
      in if denom = 0 then None
         else
           (let uA = numeA / denom; uB = numeB / denom
            in if 0 \<le> uA \<and> uA \<le> 1 \<and> 0 \<le> uB \<and> uB \<le> 1
               then Some (x1 + uA * (x2 - x1), y1 + uA * (y2 - y1))
               else None))"

definition segmentIntersections :: lineIntersect where
  "segmentIntersections line coords =
     rev (remdups (rev (concat
       (map (\<lambda>edge. case intersects line edge of None \<Rightarrow> [] | Some p \<Rightarrow> [p])
          (zip coords (tl coords))))))"

text \<open>
  A square of one degree, and the sweep over it in steps of half a degree, at an
  altitude of 50, with a given intersection routine.
\<close>

definition unitSquare :: "point list" where
  "unitSquare = [(0, 0), (0, 1), (1, 1), (1, 0)]"

definition squareSweep :: "lineIntersect \<Rightarrow> Sweep" where
  "squareSweep isect = \<lparr>intersect = isect, ring = closeRing unitSquare,
                         flightAltitude = 50, minLng = 0, maxLng = 1, maxLat = 1,
                         spacingDegrees = 1 / 2\<rparr>"

section \<open>Data model\<close>

text \<open>
  Identifiers are the string ids of the persistence layer.  JavaScript numbers are
  read as real numbers; the wall clock (\<open>new Date()\<close>) is a counter of seconds kept
  in the store and advanced by the simulation worker at every wait.
\<close>

type_synonym ident = string

datatype MissionStatus = PLANNED | ACTIVE | PAUSED | COMPLETED | ABORTED | FAILED

datatype DroneStatus = AVAILABLE | IN_MISSION | CHARGING | MAINTENANCE | OFFLINE

text \<open>
  A coordinate of a drone as the simulation worker writes it: a number, or the NaN that
  the quotient 0 / 0 of a segment without steps leaves in the interpolated position.
\<close>

datatype coordinate = NotANumber | Coordinate real

record Drone =
  dstatus :: DroneStatus
  battery :: real
  dlongitude :: "coordinate option"
  dlatitude :: "coordinate option"
  daltitude :: "coordinate option"

record Mission =
  droneId :: ident
  status :: MissionStatus
  speed :: real
  estimatedTime :: real
  progress :: real
  currentWaypoint :: nat
  distanceCovered :: real
  startTime :: "nat option"
  endTime :: "nat option"
  actualTime :: "real option"

record Waypoint =
  longitude :: real
  latitude :: real
  altitude :: real
  reached :: bool
  reachedAt :: "nat option"

text \<open>
  The telemetry sink: one constructor per \<open>emit...\<close> function of the websocket module.
  Every emitted event carries the time of its emission (its \<open>timestamp\<close> field).
\<close>

datatype Event =
    MissionStatusEvent ident MissionStatus
  | DroneStatusEvent ident DroneStatus
  | FleetStatsEvent
  | DronePositionEvent ident coordinate coordinate coordinate real real
  | MissionProgressEvent ident real nat nat real real

text \<open>
  The store holds the three tables, the clock, the emitted events with their timestamps
  in order, and a record of every \<open>prisma.waypoint.update\<close> call (mission id and position of the row in
  the mission's waypoint list ordered by sequence).
\<close>

record Store =
  missions :: "ident \<rightharpoonup> Mission"
  drones :: "ident \<rightharpoonup> Drone"
  waypoints :: "ident \<Rightarrow> Waypoint list"
  now :: nat
  events :: "(nat \<times> Event) list"
  waypointWrites :: "(ident \<times> nat) list"

datatype Error =
    MissionNotFound
  | MissionCannotBeStarted
  | OnlyActiveMissionsCanBePaused
  | OnlyPausedMissionsCanBeResumed
  | MissionAlreadyFinished
  | RecordNotFound
  | NoWaypointsFound
  | DroneNotFound
  | CoordinatesMustContainNumbers

section \<open>Fleet service\<close>

text \<open>
  Every operation returns its outcome together with the store it leaves: an exception of
  the source is \<open>Inl\<close>, and the store beside it holds whatever had been written before
  the exception was thrown.
\<close>

type_synonym 'a result = "(Error + 'a) \<times> Store"

definition emit :: "Event list \<Rightarrow> Store \<Rightarrow> Store" where
  "emit es s = s\<lparr>events := events s @ map (Pair (now s)) es\<rparr>"

text \<open>
  \<open>updateDrone\<close> with the only payload its callers in the mission and simulation code
  pass, a new status.  The update of a missing row is rejected by the persistence layer;
  a status change is announced together with the fleet statistics.
\<close>

definition updateDrone :: "ident \<Rightarrow> DroneStatus \<Rightarrow> Store \<Rightarrow> unit result" where
  "updateDrone did st s =
     (case drones s did of
        None \<Rightarrow> (Inl RecordNotFound, s)
      | Some d \<Rightarrow>
          (Inr (), emit [DroneStatusEvent did st, FleetStatsEvent]
                     (s\<lparr>drones := (drones s)(did \<mapsto> d\<lparr>dstatus := st\<rparr>)\<rparr>)))"

definition updateDronePosition ::
  "ident \<Rightarrow> coordinate \<times> coordinate \<times> coordinate \<Rightarrow> Store \<Rightarrow> unit result" where
  "updateDronePosition did pos s =
     (case drones s did of
        None \<Rightarrow> (Inl RecordNotFound, s)
      | Some d \<Rightarrow>
          (Inr (), s\<lparr>drones := (drones s)(did \<mapsto>
                     d\<lparr>dlongitude := Some (fst pos), dlatitude := Some (fst (snd pos)),
                       daltitude := Some (snd (snd pos))\<rparr>)\<rparr>))"

definition updateDroneBattery :: "ident \<Rightarrow> real \<Rightarrow> Store \<Rightarrow> unit result" where
  "updateDroneBattery did b s =
     (case drones s did of
        None \<Rightarrow> (Inl RecordNotFound, s)
      | Some d \<Rightarrow>
          (let s1 = s\<lparr>drones := (drones s)(did \<mapsto> d\<lparr>battery := b\<rparr>)\<rparr>
           in if b < 20 then updateDrone did CHARGING s1 else (Inr (), s1)))"

section \<open>Mission service\<close>

text \<open>
  \<open>getMissionById\<close> reads through a cache that every writer of a mission row
  invalidates after its write; it is modelled as the read of the row.
\<close>

definition getMissionById :: "Store \<Rightarrow> ident \<Rightarrow> Mission option" where
  "getMissionById s mid = missions s mid"

definition startMission :: "ident \<Rightarrow> Store \<Rightarrow> Mission result" where
  "startMission mid s =
     (case getMissionById s mid of
        None \<Rightarrow> (Inl MissionNotFound, s)
      | Some m \<Rightarrow>
          if status m \<noteq> PLANNED \<and> status m \<noteq> PAUSED then (Inl MissionCannotBeStarted, s)
          else (case updateDrone (droneId m) IN_MISSION s of
                  (Inl e, s1) \<Rightarrow> (Inl e, s1)
                | (Inr _, s1) \<Rightarrow>
                    (let m' = m\<lparr>status := ACTIVE,
                                startTime := (case startTime m of
                                                Some t \<Rightarrow> Some t
                                              | None \<Rightarrow> Some (now s1))\<rparr>
                     in (Inr m', emit [MissionStatusEvent mid ACTIVE]
                                   (s1\<lparr>missions := (missions s1)(mid \<mapsto> m')\<rparr>)))))"

definition pauseMission :: "ident \<Rightarrow> Store \<Rightarrow> Mission result" where
  "pauseMission mid s =
     (case getMissionById s mid of
        None \<Rightarrow> (Inl MissionNotFound, s)
      | Some m \<Rightarrow>
          if status m \<noteq> ACTIVE then (Inl OnlyActiveMissionsCanBePaused, s)
          else (let m' = m\<lparr>status := PAUSED\<rparr>
                in (Inr m', emit [MissionStatusEvent mid PAUSED]
                              (s\<lparr>missions := (missions s)(mid \<mapsto> m')\<rparr>))))"

definition resumeMission :: "ident \<Rightarrow> Store \<Rightarrow> Mission result" where
  "resumeMission mid s =
     (case getMissionById s mid of
        None \<Rightarrow> (Inl MissionNotFound, s)
      | Some m \<Rightarrow>
          if status m \<noteq> PAUSED then (Inl OnlyPausedMissionsCanBeResumed, s)
          else (let m' = m\<lparr>status := ACTIVE\<rparr>
                in (Inr m', emit [MissionStatusEvent mid ACTIVE]
                              (s\<lparr>missions := (missions s)(mid \<mapsto> m')\<rparr>))))"

definition abortMission :: "ident \<Rightarrow> Store \<Rightarrow> Mission result" where
  "abortMission mid s =
     (case getMissionById s mid of
        None \<Rightarrow> (Inl MissionNotFound, s)
      | Some m \<Rightarrow>
          if status m = COMPLETED \<or> status m = ABORTED then (Inl MissionAlreadyFinished, s)
          else (case updateDrone (droneId m) AVAILABLE s of
                  (Inl e, s1) \<Rightarrow> (Inl e, s1)
                | (Inr _, s1) \<Rightarrow>
                    (let m' = m\<lparr>status := ABORTED, endTime := Some (now s1)\<rparr>
                     in (Inr m', emit [MissionStatusEvent mid ABORTED]
                                   (s1\<lparr>missions := (missions s1)(mid \<mapsto> m')\<rparr>)))))"

definition updateMissionProgress :: "ident \<Rightarrow> real \<times> nat \<times> real \<Rightarrow> Store \<Rightarrow> unit result" where
  "updateMissionProgress mid d s =
     (case missions s mid of
        None \<Rightarrow> (Inl RecordNotFound, s)
      | Some m \<Rightarrow>
          (Inr (), s\<lparr>missions := (missions s)(mid \<mapsto>
                     m\<lparr>progress := fst d, currentWaypoint := fst (snd d),
                       distanceCovered := snd (snd d)\<rparr>)\<rparr>))"

definition completeMission :: "ident \<Rightarrow> Store \<Rightarrow> Mission result" where
  "completeMission mid s =
     (case getMissionById s mid of
        None \<Rightarrow> (Inl MissionNotFound, s)
      | Some m \<Rightarrow>
          (let actual = (case startTime m of
                           Some t \<Rightarrow> real_of_int (int (now s) - int t)
                         | None \<Rightarrow> 0)
           in case updateDrone (droneId m) AVAILABLE s of
                (Inl e, s1) \<Rightarrow> (Inl e, s1)
              | (Inr _, s1) \<Rightarrow>
                  (let m' = m\<lparr>status := COMPLETED, endTime := Some (now s1),
                              actualTime := Some actual, progress := 100\<rparr>
                   in (Inr m', emit [MissionStatusEvent mid COMPLETED]
                                 (s1\<lparr>missions := (missions s1)(mid \<mapsto> m')\<rparr>)))))"

text \<open>The status of a drone, as an operation leaves it.\<close>

definition droneStatusOf :: "Store \<Rightarrow> ident \<Rightarrow> DroneStatus option" where
  "droneStatusOf s did = map_option dstatus (drones s did)"

section \<open>Geometry\<close>

type_synonym distance = "point \<Rightarrow> point \<Rightarrow> real"

text \<open>
  \<open>interpolatePosition\<close>, over any type of numbers with the three operations it uses.
\<close>

definition interpolatePosition ::
  "'a \<times> 'a \<times> 'a \<Rightarrow> 'a \<times> 'a \<times> 'a \<Rightarrow> 'a \<Rightarrow> ('a::{plus,minus,times}) \<times> 'a \<times> 'a" where
  "interpolatePosition from to prog =
     (let lng = fst from + (fst to - fst from) * prog;
          lat = fst (snd from) + (fst (snd to) - fst (snd from)) * prog;
          alt = snd (snd from) + (snd (snd to) - snd (snd from)) * prog
      in (lng, lat, alt))"

text \<open>
  The numbers of the source are IEEE 754 doubles.  Where rounding matters they are modelled
  as follows.  A finite double is \<open>Float64 m e\<close>, standing for \<open>m * 2 ^ e\<close>, with an odd
  mantissa \<open>m\<close> below \<open>2 ^ 53\<close> in absolute value, an exponent \<open>e\<close> of \<open>- 1074\<close> or above
  and a value below \<open>2 ^ 1024\<close> in absolute value, or \<open>Float64 0 0\<close> for zero; the two
  infinities and NaN are values of their own.  Every operation computes the exact result
  and rounds it to nearest, ties to even: to 53 significant bits, or to a multiple of
  \<open>2 ^ - 1074\<close> where that is coarser, and to an infinity when the rounded result is
  \<open>2 ^ 1024\<close> or above in absolute value.  The two zeros of the format, which the
  comparison of numbers does not tell apart, are one value here.
\<close>

datatype float64 = Float64 int int | PlusInfinity | MinusInfinity | NaN

function normalizeDouble :: "int \<Rightarrow> int \<Rightarrow> float64" where
  "normalizeDouble m e =
     (if m = 0 then Float64 0 0
      else if even m then normalizeDouble (m div 2) (e + 1)
      else Float64 m e)"
  by pat_completeness auto
termination
  by (relation "measure (\<lambda>(m, e). nat \<bar>m\<bar>)") auto

declare normalizeDouble.simps [simp del]

definition signedInfinity :: "bool \<Rightarrow> float64" where
  "signedInfinity positive = (if positive then PlusInfinity else MinusInfinity)"

definition finiteDouble :: "int \<Rightarrow> int \<Rightarrow> float64" where
  "finiteDouble m e =
     (if m = 0 then Float64 0 0
      else if 1024 < bitlen \<bar>m\<bar> + e then signedInfinity (0 < m)
      else normalizeDouble m e)"

definition roundDouble :: "int \<Rightarrow> int \<Rightarrow> float64" where
  "roundDouble m e =
     (let k = max (bitlen \<bar>m\<bar> - 53) (- 1074 - e)
      in if k \<le> 0 then finiteDouble m e
         else
           (let q = \<bar>m\<bar> div 2 ^ nat k;
                r = \<bar>m\<bar> mod 2 ^ nat k;
                half = 2 ^ nat (k - 1);
                q' = (if half < r \<or> (r = half \<and> odd q) then q + 1 else q)
            in finiteDouble (sgn m * q') (e + k)))"

instantiation float64 :: "{zero, one, uminus, plus, minus, times}"
begin

definition zero_float64 :: float64 where
  "zero_float64 = Float64 0 0"

definition one_float64 :: float64 where
  "one_float64 = Float64 1 0"

fun uminus_float64 :: "float64 \<Rightarrow> float64" where
  "uminus_float64 (Float64 m e) = Float64 (- m) e"
| "uminus_float64 PlusInfinity = MinusInfinity"
| "uminus_float64 MinusInfinity = PlusInfinity"
| "uminus_float64 NaN = NaN"

fun plus_float64 :: "float64 \<Rightarrow> float64 \<Rightarrow> float64" where
  "plus_float64 (Float64 m1 e1) (Float64 m2 e2) =
     (let e = min e1 e2
      in roundDouble (m1 * 2 ^ nat (e1 - e) + m2 * 2 ^ nat (e2 - e)) e)"
| "plus_float64 NaN y = NaN"
| "plus_float64 x NaN = NaN"
| "plus_float64 PlusInfinity MinusInfinity = NaN"
| "plus_float64 MinusInfinity PlusInfinity = NaN"
| "plus_float64 PlusInfinity y = PlusInfinity"
| "plus_float64 MinusInfinity y = MinusInfinity"
| "plus_float64 (Float64 m e) y = y"

definition minus_float64 :: "float64 \<Rightarrow> float64 \<Rightarrow> float64" where
  "minus_float64 x y = x + (- y)"

fun times_float64 :: "float64 \<Rightarrow> float64 \<Rightarrow> float64" where
  "times_float64 (Float64 m1 e1) (Float64 m2 e2) = roundDouble (m1 * m2) (e1 + e2)"
| "times_float64 NaN y = NaN"
| "times_float64 x NaN = NaN"
| "times_float64 (Float64 m e) PlusInfinity = (if m = 0 then NaN else signedInfinity (0 < m))"
| "times_float64 (Float64 m e) MinusInfinity = (if m = 0 then NaN else signedInfinity (m < 0))"
| "times_float64 PlusInfinity (Float64 m e) = (if m = 0 then NaN else signedInfinity (0 < m))"
| "times_float64 MinusInfinity (Float64 m e) = (if m = 0 then NaN else signedInfinity (m < 0))"
| "times_float64 PlusInfinity PlusInfinity = PlusInfinity"
| "times_float64 PlusInfinity MinusInfinity = MinusInfinity"
| "times_float64 MinusInfinity PlusInfinity = MinusInfinity"
| "times_float64 MinusInfinity MinusInfinity = PlusInfinity"

instance ..

end

text \<open>
  The finite doubles, and those below \<open>2 ^ 1022\<close> in absolute value, a range that holds
  every longitude, latitude and altitude and in which no difference overflows.
\<close>

definition isDouble :: "float64 \<Rightarrow> bool" where
  "isDouble x =
     (case x of
        Float64 m e \<Rightarrow>
          (if m = 0 then e = 0
           else odd m \<and> \<bar>m\<bar> < 2 ^ 53 \<and> - 1074 \<le> e \<and> bitlen \<bar>m\<bar> + e \<le> 1024)
      | _ \<Rightarrow> False)"

definition inRange :: "float64 \<Rightarrow> bool" where
  "inRange x = (isDouble x \<and> (case x of Float64 m e \<Rightarrow> bitlen \<bar>m\<bar> + e \<le> 1022 | _ \<Rightarrow> False))"

definition positionInRange :: "float64 \<times> float64 \<times> float64 \<Rightarrow> bool" where
  "positionInRange p = (inRange (fst p) \<and> inRange (fst (snd p)) \<and> inRange (snd (snd p)))"

text \<open>
  \<open>calculateDistance\<close> hands its two points to the geometry library's great-circle
  distance.  The simulation worker below takes the distance function as a parameter;
  where a concrete one is needed it is the haversine formula on the library's mean earth
  radius, in metres, with points given as (longitude, latitude) in degrees.
\<close>

definition earthRadius :: real where
  "earthRadius = 6371008.8"

definition degreesToRadians :: "real \<Rightarrow> real" where
  "degreesToRadians d = d * pi / 180"

definition calculateDistance :: distance where
  "calculateDistance from to =
     (let dLat = degreesToRadians (snd to - snd from);
          dLon = degreesToRadians (fst to - fst from);
          lat1 = degreesToRadians (snd from);
          lat2 = degreesToRadians (snd to);
          a = (sin (dLat / 2))\<^sup>2 + (sin (dLon / 2))\<^sup>2 * cos lat1 * cos lat2
      in 2 * earthRadius * arcsin (sqrt a))"

section \<open>Simulation worker\<close>

text \<open>
  The locals of one run of the queue's job processor: the mission and the waypoints as
  loaded at the start of the run, the segment cursor and the distance accumulator.
\<close>

record Worker =
  missionId :: ident
  mission :: Mission
  wpts :: "Waypoint list"
  currentWaypointIndex :: nat
  totalDistanceCovered :: real

text \<open>
  How the step loop makes the processor return early, and how a run of the processor ends
  when no exception leaves it.
\<close>

datatype Stop = PausedDuringSegment | LowBattery

datatype Outcome = Completed | Stopped Stop

definition startWorker :: "ident \<Rightarrow> Store \<Rightarrow> Error + Worker" where
  "startWorker mid s =
     (case getMissionById s mid of
        None \<Rightarrow> Inl MissionNotFound
      | Some m \<Rightarrow>
          if waypoints s mid = [] then Inl NoWaypointsFound
          else (case drones s (droneId m) of
                  None \<Rightarrow> Inl DroneNotFound
                | Some _ \<Rightarrow>
                    Inr \<lparr>missionId = mid, mission = m, wpts = waypoints s mid,
                         currentWaypointIndex = currentWaypoint m,
                         totalDistanceCovered = distanceCovered m\<rparr>))"

definition position3 :: "Waypoint \<Rightarrow> real \<times> real \<times> real" where
  "position3 wp = (longitude wp, latitude wp, altitude wp)"

definition lngLat :: "real \<times> real \<times> real \<Rightarrow> point" where
  "lngLat p = (fst p, fst (snd p))"

definition segmentFrom :: "Worker \<Rightarrow> real \<times> real \<times> real" where
  "segmentFrom w = position3 (wpts w ! currentWaypointIndex w)"

definition segmentTo :: "Worker \<Rightarrow> real \<times> real \<times> real" where
  "segmentTo w = position3 (wpts w ! (currentWaypointIndex w + 1))"

definition segmentDistance :: "distance \<Rightarrow> Worker \<Rightarrow> real" where
  "segmentDistance D w = D (lngLat (segmentFrom w)) (lngLat (segmentTo w))"

text \<open>
  \<open>Math.ceil(segmentTime / (updateInterval / 1000))\<close> with an update interval of one
  second.  The speed of a mission is positive (input validation, and the default of a
  drone); for a speed of zero the source's quotient is no real number.
\<close>

definition steps :: "distance \<Rightarrow> Worker \<Rightarrow> int" where
  "steps D w = \<lceil>segmentDistance D w / speed (mission w)\<rceil>"

definition batteryDrainRate :: real where
  "batteryDrainRate = 0.1"

text \<open>
  The quantities of one iteration of the step loop, under the names the source gives
  them: the interpolated position of a step, the progress within the segment measured
  from the distance still to go, the overall progress in percent, and the distance
  covered so far.
\<close>

definition stepPosition :: "distance \<Rightarrow> Worker \<Rightarrow> nat \<Rightarrow> real \<times> real \<times> real" where
  "stepPosition D w step =
     interpolatePosition (segmentFrom w) (segmentTo w) (real step / real_of_int (steps D w))"

text \<open>
  The position of a step as it is written and announced.  The step loop runs its body for
  the steps from 0 to the step count; with a step count of zero that is step 0 alone,
  whose progress is the quotient 0 / 0: it is NaN, and so are the three coordinates
  interpolated with it.
\<close>

definition stepCoordinates ::
  "distance \<Rightarrow> Worker \<Rightarrow> nat \<Rightarrow> coordinate \<times> coordinate \<times> coordinate" where
  "stepCoordinates D w step =
     (if steps D w = 0 then (NotANumber, NotANumber, NotANumber)
      else (Coordinate (fst (stepPosition D w step)),
            Coordinate (fst (snd (stepPosition D w step))),
            Coordinate (snd (snd (stepPosition D w step)))))"

definition segmentProgress :: "distance \<Rightarrow> Worker \<Rightarrow> real \<times> real \<times> real \<Rightarrow> real" where
  "segmentProgress D w position =
     1 - D (lngLat position) (lngLat (segmentTo w)) / segmentDistance D w"

definition waypointsCompleted :: "distance \<Rightarrow> Worker \<Rightarrow> real \<times> real \<times> real \<Rightarrow> real" where
  "waypointsCompleted D w position =
     real (currentWaypointIndex w) + segmentProgress D w position"

definition overallProgress :: "distance \<Rightarrow> Worker \<Rightarrow> real \<times> real \<times> real \<Rightarrow> real" where
  "overallProgress D w position =
     waypointsCompleted D w position / real (length (wpts w)) * 100"

definition coveredDistance :: "distance \<Rightarrow> Worker \<Rightarrow> real \<times> real \<times> real \<Rightarrow> real" where
  "coveredDistance D w position =
     totalDistanceCovered w + segmentDistance D w * segmentProgress D w position"

definition estimatedTimeRemaining :: "distance \<Rightarrow> Worker \<Rightarrow> real \<times> real \<times> real \<Rightarrow> real" where
  "estimatedTimeRemaining D w position =
     (real (length (wpts w)) - waypointsCompleted D w position) / real (length (wpts w))
       * estimatedTime (mission w)"

text \<open>
  The second half of an iteration: the progress is persisted and announced, and the
  worker waits one second.
\<close>

definition reportProgress ::
  "distance \<Rightarrow> Worker \<Rightarrow> real \<times> real \<times> real \<Rightarrow> Store \<Rightarrow> (Stop option) result" where
  "reportProgress D w position s =
     (case updateMissionProgress (missionId w)
             (overallProgress D w position, currentWaypointIndex w,
              coveredDistance D w position) s of
        (Inl e, s1) \<Rightarrow> (Inl e, s1)
      | (Inr _, s1) \<Rightarrow>
          (let s2 = emit [MissionProgressEvent (missionId w) (overallProgress D w position)
                            (currentWaypointIndex w) (length (wpts w))
                            (coveredDistance D w position)
                            (estimatedTimeRemaining D w position)] s1
           in (Inr None, s2\<lparr>now := now s2 + 1\<rparr>)))"

text \<open>
  The distance still to go is asked of \<open>calculateDistance\<close>, which makes a point of
  the geometry library from the position of the step; the library rejects coordinates
  that are no numbers, so that with a step count of zero the second half of the iteration
  is this exception.
\<close>

definition reportStep :: "distance \<Rightarrow> Worker \<Rightarrow> nat \<Rightarrow> Store \<Rightarrow> (Stop option) result" where
  "reportStep D w step s =
     (if steps D w = 0 then (Inl CoordinatesMustContainNumbers, s)
      else reportProgress D w (stepPosition D w step) s)"

text \<open>
  One iteration of the step loop, from the status check to the end of the wait.
  \<open>Inr None\<close>: the loop goes on; \<open>Inr (Some _)\<close>: the job processor returned;
  \<open>Inl\<close>: an exception on its way to the processor's catch block.  With a step count
  of zero the position that is written and announced is NaN; the battery is drained and a
  low reading aborts the mission as in any other step.
\<close>

definition iteration :: "distance \<Rightarrow> Worker \<Rightarrow> nat \<Rightarrow> Store \<Rightarrow> (Stop option) result" where
  "iteration D w step s =
     (case missions s (missionId w) of
        None \<Rightarrow> (Inr (Some PausedDuringSegment), s)
      | Some statusCheck \<Rightarrow>
          if status statusCheck \<noteq> ACTIVE then (Inr (Some PausedDuringSegment), s)
          else
            (let position = stepCoordinates D w step
             in case updateDronePosition (droneId (mission w)) position s of
                  (Inl e, s1) \<Rightarrow> (Inl e, s1)
                | (Inr _, s1) \<Rightarrow>
                    (case drones s1 (droneId (mission w)) of
                       None \<Rightarrow> reportStep D w step s1
                     | Some currentDrone \<Rightarrow>
                         (let newBattery = max 0 (battery currentDrone - batteryDrainRate)
                          in case updateDroneBattery (droneId (mission w)) newBattery s1 of
                               (Inl e, s2) \<Rightarrow> (Inl e, s2)
                             | (Inr _, s2) \<Rightarrow>
                                 (let s3 = emit [DronePositionEvent (droneId (mission w))
                                                   (fst (snd position)) (fst position)
                                                   (snd (snd position)) newBattery
                                                   (speed (mission w))] s2
                                  in if newBattery < 10
                                     then (case abortMission (missionId w) s3 of
                                             (Inl e, s4) \<Rightarrow> (Inl e, s4)
                                           | (Inr _, s4) \<Rightarrow> (Inr (Some LowBattery), s4))
                                     else reportStep D w step s3)))))"

function segment_loop :: "distance \<Rightarrow> Worker \<Rightarrow> nat \<Rightarrow> Store \<Rightarrow> (Stop option) result" where
  "segment_loop D w step s =
     (if int step \<le> steps D w
      then (case iteration D w step s of
              (Inr None, s1) \<Rightarrow> segment_loop D w (Suc step) s1
            | (Inr (Some stop), s1) \<Rightarrow> (Inr (Some stop), s1)
            | (Inl e, s1) \<Rightarrow> (Inl e, s1))
      else (Inr None, s))"
  by pat_completeness auto
termination
  by (relation "measure (\<lambda>(D, w, step, s). nat (steps D w + 1 - int step))") auto

declare segment_loop.simps [simp del]

text \<open>
  The row of the waypoint table that holds the next waypoint is marked; the call is
  recorded in \<open>waypointWrites\<close>.
\<close>

definition markReached :: "ident \<Rightarrow> nat \<Rightarrow> Store \<Rightarrow> unit result" where
  "markReached mid i s =
     (if i < length (waypoints s mid)
      then (Inr (), s\<lparr>waypoints := (waypoints s)(mid :=
                        (waypoints s mid)[i := (waypoints s mid ! i)
                           \<lparr>reached := True, reachedAt := Some (now s)\<rparr>]),
                      waypointWrites := waypointWrites s @ [(mid, i)]\<rparr>)
      else (Inl RecordNotFound, s))"

text \<open>The locals after a segment: the distance accumulator and the cursor move on.\<close>

definition nextWorker :: "distance \<Rightarrow> Worker \<Rightarrow> Worker" where
  "nextWorker D w = w\<lparr>totalDistanceCovered := totalDistanceCovered w + segmentDistance D w,
                      currentWaypointIndex := currentWaypointIndex w + 1\<rparr>"

text \<open>
  The simulation loop.  \<open>Inr None\<close>: the loop was left, by its condition or by the
  \<open>break\<close> of the status check at the head of a segment.
\<close>

function simulation_loop :: "distance \<Rightarrow> Worker \<Rightarrow> Store \<Rightarrow> (Stop option) result" where
  "simulation_loop D w s =
     (if currentWaypointIndex w < length (wpts w) - 1
      then (case missions s (missionId w) of
              None \<Rightarrow> (Inr None, s)
            | Some currentMission \<Rightarrow>
                if status currentMission \<noteq> ACTIVE then (Inr None, s)
                else (case segment_loop D w 0 s of
                        (Inl e, s1) \<Rightarrow> (Inl e, s1)
                      | (Inr (Some stop), s1) \<Rightarrow> (Inr (Some stop), s1)
                      | (Inr None, s1) \<Rightarrow>
                          (case markReached (missionId w) (currentWaypointIndex w + 1) s1 of
                             (Inl e, s2) \<Rightarrow> (Inl e, s2)
                           | (Inr _, s2) \<Rightarrow> simulation_loop D (nextWorker D w) s2)))
      else (Inr None, s))"
  by pat_completeness auto
termination
  by (relation "measure (\<lambda>(D, w, s). length (wpts w) - currentWaypointIndex w)")
    (auto simp: nextWorker_def)

declare simulation_loop.simps [simp del]

text \<open>The body of the job processor's \<open>try\<close> block, and the processor with its catch block.\<close>

definition simulate :: "distance \<Rightarrow> ident \<Rightarrow> Store \<Rightarrow> Outcome result" where
  "simulate D mid s =
     (case startWorker mid s of
        Inl e \<Rightarrow> (Inl e, s)
      | Inr w \<Rightarrow>
          (case simulation_loop D w s of
             (Inl e, s1) \<Rightarrow> (Inl e, s1)
           | (Inr (Some stop), s1) \<Rightarrow> (Inr (Stopped stop), s1)
           | (Inr None, s1) \<Rightarrow>
               (case completeMission mid s1 of
                  (Inl e, s2) \<Rightarrow> (Inl e, s2)
                | (Inr _, s2) \<Rightarrow> (Inr Completed, s2))))"

definition process :: "distance \<Rightarrow> ident \<Rightarrow> Store \<Rightarrow> Outcome result" where
  "process D mid s =
     (case simulate D mid s of
        (Inr out, s1) \<Rightarrow> (Inr out, s1)
      | (Inl e, s1) \<Rightarrow>
          (case abortMission mid s1 of
             (Inl e', s2) \<Rightarrow> (Inl e', s2)
           | (Inr _, s2) \<Rightarrow> (Inl e, s2)))"

section \<open>Properties of event traces\<close>

text \<open>The drone position updates of a trace, each as its timestamp and battery reading.\<close>

fun positionUpdates :: "(nat \<times> Event) list \<Rightarrow> (nat \<times> real) list" where
  "positionUpdates [] = []"
| "positionUpdates ((t, DronePositionEvent d la lo al b sp) # es) = (t, b) # positionUpdates es"
| "positionUpdates (_ # es) = positionUpdates es"

definition batteriesInRange :: "Store \<Rightarrow> bool" where
  "batteriesInRange s = (\<forall>did d. drones s did = Some d \<longrightarrow> 0 \<le> battery d \<and> battery d \<le> 100)"

text \<open>The mission row names the drone that the worker flies.\<close>

definition rowDrone :: "Worker \<Rightarrow> Store \<Rightarrow> bool" where
  "rowDrone w s = (\<forall>cm. missions s (missionId w) = Some cm \<longrightarrow> droneId cm = droneId (mission w))"

text \<open>
  What a run owes to the battery: every reading it reports lies between 0 and 100; a
  reading below 10 can only be the last one; and when the last reading is below 10, the
  run has returned for low battery, the clock still shows the time of that reading, and
  the mission is ABORTED with that time as its end.
\<close>

definition batteryDiscipline :: "ident \<Rightarrow> bool \<Rightarrow> (nat \<times> real) list \<Rightarrow> Store \<Rightarrow> bool" where
  "batteryDiscipline mid low rs s' =
     ((\<forall>x\<in>set rs. 0 \<le> snd x \<and> snd x \<le> 100)
      \<and> (\<forall>x\<in>set (butlast rs). 10 \<le> snd x)
      \<and> (rs \<noteq> [] \<and> snd (last rs) < 10 \<longrightarrow>
           low \<and> now s' = fst (last rs)
           \<and> (\<exists>m. missions s' mid = Some m \<and> status m = ABORTED
                  \<and> endTime m = Some (fst (last rs)))))"

section \<open>A concrete fleet\<close>

text \<open>
  One drone and one mission of two waypoints, a thousandth of a degree apart on the
  equator, flown at ten metres per second.
\<close>

definition drone1 :: Drone where
  "drone1 = \<lparr>dstatus = IN_MISSION, battery = 100, dlongitude = None, dlatitude = None,
             daltitude = None\<rparr>"

definition mission1 :: Mission where
  "mission1 = \<lparr>droneId = ''d1'', status = PLANNED, speed = 10, estimatedTime = 12,
               progress = 0, currentWaypoint = 0, distanceCovered = 0, startTime = None,
               endTime = None, actualTime = None\<rparr>"

definition waypointA :: Waypoint where
  "waypointA = \<lparr>longitude = 0, latitude = 0, altitude = 50, reached = False,
                reachedAt = None\<rparr>"

definition waypointB :: Waypoint where
  "waypointB = \<lparr>longitude = 1 / 1000, latitude = 0, altitude = 50, reached = False,
                reachedAt = None\<rparr>"

definition store1 :: Store where
  "store1 = \<lparr>missions = [''m1'' \<mapsto> mission1], drones = [''d1'' \<mapsto> drone1],
             waypoints = (\<lambda>_. [])(''m1'' := [waypointA, waypointB]), now = 0,
             events = [], waypointWrites = []\<rparr>"

text \<open>The same store with the mission in a given status.\<close>

definition storeIn :: "MissionStatus \<Rightarrow> Store" where
  "storeIn st = store1\<lparr>missions := [''m1'' \<mapsto> mission1\<lparr>status := st\<rparr>]\<rparr>"

text \<open>The mission in flight, with a given charge of the drone's battery.\<close>

definition storeAt :: "real \<Rightarrow> Store" where
  "storeAt b = (storeIn ACTIVE)\<lparr>drones := [''d1'' \<mapsto> drone1\<lparr>battery := b\<rparr>]\<rparr>"

text \<open>The locals of a worker that has just loaded this mission.\<close>

definition worker1 :: Worker where
  "worker1 = \<lparr>missionId = ''m1'', mission = mission1\<lparr>status := ACTIVE\<rparr>,
               wpts = [waypointA, waypointB], currentWaypointIndex = 0,
               totalDistanceCovered = 0\<rparr>"

text \<open>The same mission with its two waypoints at one place: a segment without steps.\<close>

definition storeStill :: "real \<Rightarrow> Store" where
  "storeStill b = (storeAt b)\<lparr>waypoints := (\<lambda>_. [])(''m1'' := [waypointA, waypointA])\<rparr>"

definition workerStill :: Worker where
  "workerStill = worker1\<lparr>wpts := [waypointA, waypointA]\<rparr>"

section \<open>Verification: mission state machine\<close>

lemma updateDrone_Some:
  "drones s did = Some d \<Longrightarrow>
   updateDrone did st s =
     (Inr (), emit [DroneStatusEvent did st, FleetStatsEvent]
                (s\<lparr>drones := (drones s)(did \<mapsto> d\<lparr>dstatus := st\<rparr>)\<rparr>))"
  by (simp add: updateDrone_def)

text \<open>
  C1.  The claim: starting a PLANNED mission whose drone is not AVAILABLE fails with
  DroneUnavailable and leaves the mission PLANNED.  \<open>startMission\<close> never reads the
  drone's status: for a PLANNED mission whose drone exists, whatever the drone's status,
  the start succeeds, the mission becomes ACTIVE and the drone IN_MISSION.
\<close>

theorem startMission_planned_ignores_drone_status:
  assumes "missions s mid = Some m" and "status m = PLANNED"
    and "drones s (droneId m) = Some d"
  shows "\<exists>m' s'. startMission mid s = (Inr m', s') \<and> status m' = ACTIVE
           \<and> missions s' mid = Some m'
           \<and> droneStatusOf s' (droneId m) = Some IN_MISSION"
  using assms
  by (simp add: startMission_def getMissionById_def updateDrone_Some emit_def
      droneStatusOf_def Let_def)

theorem startMission_drone_in_mission:
  "missions store1 ''m1'' = Some mission1 \<and> status mission1 = PLANNED
   \<and> drones store1 (droneId mission1) = Some drone1 \<and> dstatus drone1 = IN_MISSION
   \<and> (\<exists>m' s'. startMission ''m1'' store1 = (Inr m', s') \<and> status m' = ACTIVE
          \<and> missions s' ''m1'' = Some m'
          \<and> droneStatusOf s' (droneId mission1) = Some IN_MISSION)"
proof -
  have a: "missions store1 ''m1'' = Some mission1" by (simp add: store1_def)
  have b: "status mission1 = PLANNED" by (simp add: mission1_def)
  have c: "drones store1 (droneId mission1) = Some drone1"
    by (simp add: store1_def mission1_def)
  have d: "dstatus drone1 = IN_MISSION" by (simp add: drone1_def)
  from startMission_planned_ignores_drone_status [OF a b c] a b c d
  show ?thesis by simp
qed


lemma abortMission_succeeds:
  assumes "missions s mid = Some m" and "status m \<noteq> COMPLETED" and "status m \<noteq> ABORTED"
    and "drones s (droneId m) = Some d"
  shows "\<exists>m' s'. abortMission mid s = (Inr m', s') \<and> status m' = ABORTED
           \<and> missions s' mid = Some m'
           \<and> droneStatusOf s' (droneId m) = Some AVAILABLE"
  using assms
  by (simp add: abortMission_def getMissionById_def updateDrone_Some emit_def
      droneStatusOf_def Let_def)

text \<open>
  C4.  The claim: each of start, pause, resume, abort and complete, invoked on a mission
  whose status is not a listed source state of the operation, fails and changes nothing;
  complete is legal from ACTIVE only.  Two of the operations do otherwise: \<open>abortMission\<close>
  rejects COMPLETED and ABORTED only, so that a FAILED mission is aborted, and
  \<open>completeMission\<close> has no guard on the status at all.
\<close>

theorem abort_failed_and_complete_paused_succeed:
  "(\<exists>m' s'. abortMission ''m1'' (storeIn FAILED) = (Inr m', s') \<and> status m' = ABORTED
       \<and> droneStatusOf s' ''d1'' = Some AVAILABLE)
   \<and> (\<exists>m' s'. completeMission ''m1'' (storeIn PAUSED) = (Inr m', s') \<and> status m' = COMPLETED
       \<and> progress m' = 100 \<and> droneStatusOf s' ''d1'' = Some AVAILABLE)"
  by (simp add: abortMission_def completeMission_def getMissionById_def updateDrone_def
      emit_def droneStatusOf_def storeIn_def store1_def mission1_def drone1_def Let_def)

text \<open>
  C4, as the guards of the code have it: start is rejected unless the mission is PLANNED
  or PAUSED, pause unless it is ACTIVE, resume unless it is PAUSED, abort when it is
  COMPLETED or ABORTED; a rejected operation returns the store it was given, so the
  mission row and the drone are as they were.
\<close>

theorem rejected_transition_changes_nothing:
  assumes "missions s mid = Some m"
  shows "(status m \<noteq> PLANNED \<and> status m \<noteq> PAUSED
            \<longrightarrow> startMission mid s = (Inl MissionCannotBeStarted, s))
       \<and> (status m \<noteq> ACTIVE
            \<longrightarrow> pauseMission mid s = (Inl OnlyActiveMissionsCanBePaused, s))
       \<and> (status m \<noteq> PAUSED
            \<longrightarrow> resumeMission mid s = (Inl OnlyPausedMissionsCanBeResumed, s))
       \<and> (status m = COMPLETED \<or> status m = ABORTED
            \<longrightarrow> abortMission mid s = (Inl MissionAlreadyFinished, s))"
  using assms
  by (simp add: startMission_def pauseMission_def resumeMission_def abortMission_def
      getMissionById_def)

theorem rejected_transition_completed_example:
  "startMission ''m1'' (storeIn COMPLETED) = (Inl MissionCannotBeStarted, storeIn COMPLETED)
   \<and> pauseMission ''m1'' (storeIn COMPLETED)
       = (Inl OnlyActiveMissionsCanBePaused, storeIn COMPLETED)
   \<and> resumeMission ''m1'' (storeIn COMPLETED)
       = (Inl OnlyPausedMissionsCanBeResumed, storeIn COMPLETED)
   \<and> abortMission ''m1'' (storeIn COMPLETED)
       = (Inl MissionAlreadyFinished, storeIn COMPLETED)"
proof -
  have a: "missions (storeIn COMPLETED) ''m1'' = Some (mission1\<lparr>status := COMPLETED\<rparr>)"
    by (simp add: storeIn_def store1_def)
  from rejected_transition_changes_nothing [OF a]
  show ?thesis by simp
qed

section \<open>Verification: simulation worker\<close>

lemma updateDronePosition_Some:
  "drones s did = Some d \<Longrightarrow>
   updateDronePosition did pos s =
     (Inr (), s\<lparr>drones := (drones s)(did \<mapsto>
                 d\<lparr>dlongitude := Some (fst pos), dlatitude := Some (fst (snd pos)),
                   daltitude := Some (snd (snd pos))\<rparr>)\<rparr>)"
  by (simp add: updateDronePosition_def)

lemma updateDronePosition_None:
  "drones s did = None \<Longrightarrow> updateDronePosition did pos s = (Inl RecordNotFound, s)"
  by (simp add: updateDronePosition_def)

lemma positionUpdates_append:
  "positionUpdates (xs @ ys) = positionUpdates xs @ positionUpdates ys"
  by (induction xs rule: positionUpdates.induct) simp_all

lemma reportProgress_Some:
  "missions s (missionId w) = Some cm \<Longrightarrow>
   reportProgress D w pos s =
     (Inr None,
      s\<lparr>missions := (missions s)(missionId w \<mapsto>
            cm\<lparr>progress := overallProgress D w pos,
               currentWaypoint := currentWaypointIndex w,
               distanceCovered := coveredDistance D w pos\<rparr>),
        events := events s @ [(now s, MissionProgressEvent (missionId w) (overallProgress D w pos)
                            (currentWaypointIndex w) (length (wpts w))
                            (coveredDistance D w pos)
                            (estimatedTimeRemaining D w pos))],
        now := now s + 1\<rparr>)"
  by (simp add: reportProgress_def updateMissionProgress_def emit_def Let_def)

text \<open>The store after the first half of an iteration with a battery that stays at 10 or above.\<close>

lemma iteration_continue:
  assumes m: "missions s (missionId w) = Some cm" and a: "status cm = ACTIVE"
    and st: "steps D w \<noteq> 0"
    and d: "drones s (droneId (mission w)) = Some cd"
    and b: "10 \<le> battery cd - batteryDrainRate"
  shows "iteration D w step s =
    (Inr None,
     s\<lparr>drones := (drones s)(droneId (mission w) \<mapsto>
            cd\<lparr>dlongitude := Some (Coordinate (fst (stepPosition D w step))),
               dlatitude := Some (Coordinate (fst (snd (stepPosition D w step)))),
               daltitude := Some (Coordinate (snd (snd (stepPosition D w step)))),
               battery := battery cd - batteryDrainRate,
               dstatus := (if battery cd - batteryDrainRate < 20 then CHARGING else dstatus cd)\<rparr>),
        missions := (missions s)(missionId w \<mapsto>
            cm\<lparr>progress := overallProgress D w (stepPosition D w step),
               currentWaypoint := currentWaypointIndex w,
               distanceCovered := coveredDistance D w (stepPosition D w step)\<rparr>),
        events := events s
          @ (if battery cd - batteryDrainRate < 20
             then [(now s, DroneStatusEvent (droneId (mission w)) CHARGING), (now s, FleetStatsEvent)]
             else [])
          @ [(now s, DronePositionEvent (droneId (mission w))
                (Coordinate (fst (snd (stepPosition D w step))))
                (Coordinate (fst (stepPosition D w step)))
                (Coordinate (snd (snd (stepPosition D w step)))) (battery cd - batteryDrainRate)
                (speed (mission w))),
             (now s, MissionProgressEvent (missionId w)
                (overallProgress D w (stepPosition D w step))
                (currentWaypointIndex w) (length (wpts w))
                (coveredDistance D w (stepPosition D w step))
                (estimatedTimeRemaining D w (stepPosition D w step)))],
        now := now s + 1\<rparr>)"
  using assms
  by (simp add: iteration_def updateDronePosition_Some updateDroneBattery_def updateDrone_def
      reportProgress_Some reportStep_def stepCoordinates_def Let_def emit_def max_def)


lemma iteration_undefined:
  assumes m: "missions s (missionId w) = Some cm" and a: "status cm = ACTIVE"
    and st: "steps D w = 0"
    and d: "drones s (droneId (mission w)) = Some cd"
    and b: "10 \<le> battery cd - batteryDrainRate"
  shows "iteration D w step s =
    (Inl CoordinatesMustContainNumbers,
     s\<lparr>drones := (drones s)(droneId (mission w) \<mapsto>
            cd\<lparr>dlongitude := Some NotANumber, dlatitude := Some NotANumber,
               daltitude := Some NotANumber,
               battery := battery cd - batteryDrainRate,
               dstatus := (if battery cd - batteryDrainRate < 20 then CHARGING else dstatus cd)\<rparr>),
        events := events s
          @ (if battery cd - batteryDrainRate < 20
             then [(now s, DroneStatusEvent (droneId (mission w)) CHARGING), (now s, FleetStatsEvent)]
             else [])
          @ [(now s, DronePositionEvent (droneId (mission w)) NotANumber NotANumber NotANumber
                (battery cd - batteryDrainRate) (speed (mission w)))]\<rparr>)"
  using assms
  by (simp add: iteration_def updateDronePosition_Some updateDroneBattery_def updateDrone_def
      reportStep_def stepCoordinates_def Let_def emit_def max_def)

lemma iteration_low:
  assumes m: "missions s (missionId w) = Some cm" and a: "status cm = ACTIVE"
    and d: "drones s (droneId (mission w)) = Some cd"
    and b: "battery cd - batteryDrainRate < 10"
    and did: "droneId cm = droneId (mission w)"
  shows "iteration D w step s =
    (Inr (Some LowBattery),
     s\<lparr>drones := (drones s)(droneId (mission w) \<mapsto>
            cd\<lparr>dlongitude := Some (fst (stepCoordinates D w step)),
               dlatitude := Some (fst (snd (stepCoordinates D w step))),
               daltitude := Some (snd (snd (stepCoordinates D w step))),
               battery := max 0 (battery cd - batteryDrainRate),
               dstatus := AVAILABLE\<rparr>),
        missions := (missions s)(missionId w \<mapsto>
            cm\<lparr>status := ABORTED, endTime := Some (now s)\<rparr>),
        events := events s
          @ [(now s, DroneStatusEvent (droneId (mission w)) CHARGING), (now s, FleetStatsEvent),
             (now s, DronePositionEvent (droneId (mission w))
                (fst (snd (stepCoordinates D w step))) (fst (stepCoordinates D w step))
                (snd (snd (stepCoordinates D w step))) (max 0 (battery cd - batteryDrainRate))
                (speed (mission w))),
             (now s, DroneStatusEvent (droneId (mission w)) AVAILABLE), (now s, FleetStatsEvent),
             (now s, MissionStatusEvent (missionId w) ABORTED)]\<rparr>)"
  using assms
  by (simp add: iteration_def updateDronePosition_Some updateDroneBattery_def updateDrone_def
      abortMission_def getMissionById_def Let_def emit_def max_def)


lemma iteration_cases:
  obtains (paused) "iteration D w step s = (Inr (Some PausedDuringSegment), s)"
  | (nodrone) "iteration D w step s = (Inl RecordNotFound, s)"
  | (continue) cm cd where "missions s (missionId w) = Some cm" "status cm = ACTIVE"
      "steps D w \<noteq> 0" "drones s (droneId (mission w)) = Some cd"
      "10 \<le> battery cd - batteryDrainRate"
  | (undefined) cm cd where "missions s (missionId w) = Some cm" "status cm = ACTIVE"
      "steps D w = 0" "drones s (droneId (mission w)) = Some cd"
      "10 \<le> battery cd - batteryDrainRate"
  | (low) cm cd where "missions s (missionId w) = Some cm" "status cm = ACTIVE"
      "drones s (droneId (mission w)) = Some cd"
      "battery cd - batteryDrainRate < 10"
proof (cases "missions s (missionId w)")
  case None
  then have "iteration D w step s = (Inr (Some PausedDuringSegment), s)"
    by (simp add: iteration_def)
  then show ?thesis by (rule paused)
next
  case (Some cm)
  show ?thesis
  proof (cases "status cm = ACTIVE")
    case False
    with Some have "iteration D w step s = (Inr (Some PausedDuringSegment), s)"
      by (simp add: iteration_def)
    then show ?thesis by (rule paused)
  next
    case act: True
    show ?thesis
    proof (cases "drones s (droneId (mission w))")
      case None
      with Some act have "iteration D w step s = (Inl RecordNotFound, s)"
        by (simp add: iteration_def updateDronePosition_None)
      then show ?thesis by (rule nodrone)
    next
      case d: (Some cd)
      show ?thesis
      proof (cases "10 \<le> battery cd - batteryDrainRate")
        case False
        then have "battery cd - batteryDrainRate < 10" by simp
        with Some act d show ?thesis by (rule low)
      next
        case hi: True
        show ?thesis
        proof (cases "steps D w = 0")
          case True
          with Some act d hi show ?thesis by (intro undefined [of cm cd])
        next
          case False
          with Some act d hi show ?thesis by (intro continue [of cm cd])
        qed
      qed
    qed
  qed
qed

lemma batteryDiscipline_Nil [simp]: "batteryDiscipline mid low [] s"
  by (simp add: batteryDiscipline_def)

lemma iteration_trace:
  assumes inv: "batteriesInRange s" and rd: "rowDrone w s"
    and it: "iteration D w step s = (r, s')"
  shows "\<exists>evs. events s' = events s @ evs \<and> batteriesInRange s' \<and> rowDrone w s'
           \<and> batteryDiscipline (missionId w) (r = Inr (Some LowBattery)) (positionUpdates evs) s'
           \<and> waypoints s' = waypoints s \<and> waypointWrites s' = waypointWrites s"
proof (cases D w step s rule: iteration_cases)
  case paused
  with it inv rd show ?thesis by auto
next
  case nodrone
  with it inv rd show ?thesis by auto
next
  case (continue cm cd)
  from inv continue(4) have bb: "0 \<le> battery cd" "battery cd \<le> 100"
    by (auto simp: batteriesInRange_def)
  have dr: "0 \<le> batteryDrainRate" by (simp add: batteryDrainRate_def)
  from iteration_continue [OF continue, of step] it
  show ?thesis using inv rd bb dr continue(1,5)
    by (auto simp: batteriesInRange_def rowDrone_def batteryDiscipline_def)
next
  case (undefined cm cd)
  from inv undefined(4) have bb: "0 \<le> battery cd" "battery cd \<le> 100"
    by (auto simp: batteriesInRange_def)
  have dr: "0 \<le> batteryDrainRate" by (simp add: batteryDrainRate_def)
  from iteration_undefined [OF undefined, of step] it
  show ?thesis using inv rd bb dr undefined(1,5)
    by (auto simp: batteriesInRange_def rowDrone_def batteryDiscipline_def)
next
  case (low cm cd)
  from inv low(3) have bb: "0 \<le> battery cd" "battery cd \<le> 100"
    by (auto simp: batteriesInRange_def)
  have dr: "0 \<le> batteryDrainRate" by (simp add: batteryDrainRate_def)
  from rd low(1) have did: "droneId cm = droneId (mission w)" by (simp add: rowDrone_def)
  from iteration_low [OF low did, where D = D and step = step] it
  show ?thesis using inv rd bb dr low(1,4)
    by (auto simp: batteriesInRange_def rowDrone_def batteryDiscipline_def)
qed

lemma in_set_butlast_or_last:
  "x \<in> set rs \<Longrightarrow> x \<in> set (butlast rs) \<or> x = last rs"
  by (induction rs) auto

lemma all_high:
  assumes "batteryDiscipline mid False rs s"
  shows "\<forall>x\<in>set rs. 10 \<le> snd x"
proof
  fix x assume x: "x \<in> set rs"
  then have ne: "rs \<noteq> []" by auto
  from in_set_butlast_or_last [OF x] show "10 \<le> snd x"
  proof
    assume "x \<in> set (butlast rs)"
    with assms show ?thesis by (simp add: batteryDiscipline_def)
  next
    assume "x = last rs"
    with assms ne show ?thesis by (auto simp: batteryDiscipline_def)
  qed
qed

lemma discipline_weaken:
  assumes "batteryDiscipline mid False rs s"
  shows "batteryDiscipline mid low rs s'"
proof -
  from all_high [OF assms] have h: "\<forall>x\<in>set rs. 10 \<le> snd x" .
  have "rs \<noteq> [] \<Longrightarrow> \<not> snd (last rs) < 10"
    using h last_in_set [of rs] by fastforce
  moreover from assms have "\<forall>x\<in>set rs. 0 \<le> snd x \<and> snd x \<le> 100"
    by (simp add: batteryDiscipline_def)
  moreover from h have "\<forall>x\<in>set (butlast rs). 10 \<le> snd x"
    by (blast dest: in_set_butlastD)
  ultimately show ?thesis
    unfolding batteryDiscipline_def by blast
qed

lemma discipline_compose:
  assumes a: "batteryDiscipline mid False rs1 s1" and b: "batteryDiscipline mid low rs2 s2"
  shows "batteryDiscipline mid low (rs1 @ rs2) s2"
proof (cases "rs2 = []")
  case True
  with discipline_weaken [OF a] show ?thesis by simp
next
  case False
  from all_high [OF a] have h: "\<forall>x\<in>set rs1. 10 \<le> snd x" .
  from a have r: "\<forall>x\<in>set rs1. 0 \<le> snd x \<and> snd x \<le> 100"
    by (simp add: batteryDiscipline_def)
  from b have rb: "\<forall>x\<in>set rs2. 0 \<le> snd x \<and> snd x \<le> 100"
    and hb: "\<forall>x\<in>set (butlast rs2). 10 \<le> snd x"
    and lb: "snd (last rs2) < 10 \<longrightarrow>
           low \<and> now s2 = fst (last rs2)
           \<and> (\<exists>m. missions s2 mid = Some m \<and> status m = ABORTED
                  \<and> endTime m = Some (fst (last rs2)))"
    using False by (simp_all add: batteryDiscipline_def)
  have 1: "\<forall>x\<in>set (rs1 @ rs2). 0 \<le> snd x \<and> snd x \<le> 100"
    using r rb by auto
  have 2: "\<forall>x\<in>set (butlast (rs1 @ rs2)). 10 \<le> snd x"
    using h hb False by (auto simp: butlast_append)
  have 3: "last (rs1 @ rs2) = last rs2" using False by simp
  show ?thesis
    unfolding batteryDiscipline_def using 1 2 3 lb by simp
qed

lemma segment_loop_step:
  "int step \<le> steps D w \<Longrightarrow> iteration D w step s = (r1, s1) \<Longrightarrow>
   segment_loop D w step s = (if r1 = Inr None then segment_loop D w (Suc step) s1 else (r1, s1))"
  by (subst segment_loop.simps) (simp split: sum.splits option.splits)

lemma segment_loop_done:
  "\<not> int step \<le> steps D w \<Longrightarrow> segment_loop D w step s = (Inr None, s)"
  by (subst segment_loop.simps) simp

lemma segment_loop_trace:
  assumes "batteriesInRange s" and "rowDrone w s"
    and "segment_loop D w step s = (r, s')"
  shows "\<exists>evs. events s' = events s @ evs \<and> batteriesInRange s' \<and> rowDrone w s'
           \<and> batteryDiscipline (missionId w) (r = Inr (Some LowBattery)) (positionUpdates evs) s'
           \<and> waypoints s' = waypoints s \<and> waypointWrites s' = waypointWrites s"
  using assms
proof (induction D w step s arbitrary: r s' rule: segment_loop.induct)
  case (1 D w step s)
  show ?case
  proof (cases "int step \<le> steps D w")
    case False
    with "1.prems"(3) have "r = Inr None" "s' = s"
      by (simp_all add: segment_loop_done)
    with "1.prems" show ?thesis by auto
  next
    case True
    obtain r1 s1 where it: "iteration D w step s = (r1, s1)" by (cases "iteration D w step s")
    from iteration_trace [OF "1.prems"(1,2) it]
    obtain evs1 where e1: "events s1 = events s @ evs1" and i1: "batteriesInRange s1"
      and d1: "rowDrone w s1"
      and b1: "batteryDiscipline (missionId w) (r1 = Inr (Some LowBattery)) (positionUpdates evs1) s1"
      and w1: "waypoints s1 = waypoints s" "waypointWrites s1 = waypointWrites s"
      by blast
    show ?thesis
    proof (cases "r1 = Inr None")
      case False
      with segment_loop_step [OF True it] "1.prems"(3) have "r = r1" "s' = s1"
        by simp_all
      with e1 i1 d1 b1 w1 show ?thesis by blast
    next
      case cont: True
      with segment_loop_step [OF True it] "1.prems"(3)
      have rec: "segment_loop D w (Suc step) s1 = (r, s')"
        by simp
      have "\<exists>evs. events s' = events s1 @ evs \<and> batteriesInRange s' \<and> rowDrone w s'
           \<and> batteryDiscipline (missionId w) (r = Inr (Some LowBattery)) (positionUpdates evs) s'
           \<and> waypoints s' = waypoints s1 \<and> waypointWrites s' = waypointWrites s1"
        by (rule "1.IH" [OF True it [symmetric] cont refl i1 d1 rec])
      then obtain evs2 where e2: "events s' = events s1 @ evs2" and i2: "batteriesInRange s'"
        and d2: "rowDrone w s'"
        and b2: "batteryDiscipline (missionId w) (r = Inr (Some LowBattery)) (positionUpdates evs2) s'"
        and w2: "waypoints s' = waypoints s1" "waypointWrites s' = waypointWrites s1"
        by blast
      from b1 cont have b1': "batteryDiscipline (missionId w) False (positionUpdates evs1) s1"
        by simp
      from discipline_compose [OF b1' b2]
      have "batteryDiscipline (missionId w) (r = Inr (Some LowBattery))
              (positionUpdates (evs1 @ evs2)) s'"
        by (simp add: positionUpdates_append)
      with e1 e2 i2 d2 w1 w2 show ?thesis by auto
    qed
  qed
qed

lemma markReached_cases:
  obtains (ok) "i < length (waypoints s mid)"
      "markReached mid i s =
         (Inr (), s\<lparr>waypoints := (waypoints s)(mid :=
                        (waypoints s mid)[i := (waypoints s mid ! i)
                           \<lparr>reached := True, reachedAt := Some (now s)\<rparr>]),
                      waypointWrites := waypointWrites s @ [(mid, i)]\<rparr>)"
  | (missing) "\<not> i < length (waypoints s mid)" "markReached mid i s = (Inl RecordNotFound, s)"
  by (cases "i < length (waypoints s mid)") (simp_all add: markReached_def)

lemma markReached_frame:
  assumes "markReached mid i s = (r, s')"
  shows "events s' = events s \<and> drones s' = drones s \<and> missions s' = missions s
         \<and> now s' = now s"
  using assms by (cases mid i s rule: markReached_cases) auto

lemma simulation_loop_exit:
  "\<not> currentWaypointIndex w < length (wpts w) - 1 \<Longrightarrow> simulation_loop D w s = (Inr None, s)"
  by (subst simulation_loop.simps) simp

lemma simulation_loop_break:
  "missions s (missionId w) = None \<or> (\<exists>m. missions s (missionId w) = Some m \<and> status m \<noteq> ACTIVE)
   \<Longrightarrow> simulation_loop D w s = (Inr None, s)"
  by (subst simulation_loop.simps) auto

lemma simulation_loop_segment:
  assumes "currentWaypointIndex w < length (wpts w) - 1"
    and "missions s (missionId w) = Some m" and "status m = ACTIVE"
    and "segment_loop D w 0 s = (r1, s1)"
    and "markReached (missionId w) (currentWaypointIndex w + 1) s1 = (r2, s2)"
  shows "simulation_loop D w s =
     (if r1 = Inr None
      then (case r2 of Inl e \<Rightarrow> (Inl e, s2) | Inr _ \<Rightarrow> simulation_loop D (nextWorker D w) s2)
      else (r1, s1))"
  using assms
  by (subst simulation_loop.simps) (simp split: sum.splits option.splits)

lemma rowDrone_store: "missions s' = missions s \<Longrightarrow> rowDrone w s' = rowDrone w s"
  by (simp add: rowDrone_def)

lemma rowDrone_worker:
  "missionId w' = missionId w \<Longrightarrow> mission w' = mission w \<Longrightarrow> rowDrone w' s = rowDrone w s"
  by (simp add: rowDrone_def)

lemma missionId_nextWorker [simp]: "missionId (nextWorker D w) = missionId w"
  by (simp add: nextWorker_def)

lemma simulation_loop_trace:
  assumes "batteriesInRange s" and "rowDrone w s"
    and "simulation_loop D w s = (r, s')"
  shows "\<exists>evs. events s' = events s @ evs \<and> batteriesInRange s' \<and> rowDrone w s'
           \<and> batteryDiscipline (missionId w) (r = Inr (Some LowBattery)) (positionUpdates evs) s'"
  using assms
proof (induction D w s arbitrary: r s' rule: simulation_loop.induct)
  case (1 D w s)
  let ?mid = "missionId w"
  show ?case
  proof (cases "currentWaypointIndex w < length (wpts w) - 1
                \<and> (\<exists>m. missions s ?mid = Some m \<and> status m = ACTIVE)")
    case False
    then have "simulation_loop D w s = (Inr None, s)"
      using simulation_loop_exit [of w D s] simulation_loop_break [of s w D]
      by (cases "missions s ?mid") auto
    with "1.prems" show ?thesis by auto
  next
    case True
    then obtain m where g: "currentWaypointIndex w < length (wpts w) - 1"
      and m: "missions s ?mid = Some m" and a: "status m = ACTIVE" by blast
    from a have na: "\<not> status m \<noteq> ACTIVE" by simp
    obtain r1 s1 where sl: "segment_loop D w 0 s = (r1, s1)" by (cases "segment_loop D w 0 s")
    obtain r2 s2 where mr: "markReached ?mid (currentWaypointIndex w + 1) s1 = (r2, s2)"
      by (cases "markReached ?mid (currentWaypointIndex w + 1) s1")
    note unf = simulation_loop_segment [OF g m a sl mr]
    from segment_loop_trace [OF "1.prems"(1,2) sl]
    obtain evs1 where e1: "events s1 = events s @ evs1" and i1: "batteriesInRange s1"
      and d1: "rowDrone w s1"
      and b1: "batteryDiscipline ?mid (r1 = Inr (Some LowBattery)) (positionUpdates evs1) s1"
      by blast
    show ?thesis
    proof (cases "r1 = Inr None")
      case False
      with unf "1.prems"(3) have "r = r1" "s' = s1" by simp_all
      with e1 i1 d1 b1 show ?thesis by blast
    next
      case cont: True
      from b1 cont have b1': "batteryDiscipline ?mid False (positionUpdates evs1) s1" by simp
      from markReached_frame [OF mr] have fr: "events s2 = events s1" "drones s2 = drones s1"
        "missions s2 = missions s1" "now s2 = now s1" by simp_all
      from i1 fr have i2: "batteriesInRange s2" by (simp add: batteriesInRange_def)
      from d1 rowDrone_store [OF fr(3)] have d2: "rowDrone w s2" by simp
      show ?thesis
      proof (cases r2)
        case (Inl e)
        with unf cont "1.prems"(3) have "r = Inl e" "s' = s2" by simp_all
        moreover from discipline_weaken [OF b1']
        have "batteryDiscipline ?mid (Inl e = Inr (Some LowBattery)) (positionUpdates evs1) s2" .
        ultimately show ?thesis using e1 fr i2 d2 by auto
      next
        case (Inr u)
        with unf cont "1.prems"(3) have rec: "simulation_loop D (nextWorker D w) s2 = (r, s')"
          by simp
        from d2 rowDrone_worker [of "nextWorker D w" w s2]
        have d2u: "rowDrone (nextWorker D w) s2" by (simp add: nextWorker_def)
        from "1.IH" [OF g m na sl [symmetric] cont refl mr [symmetric] Inr i2 d2u rec]
        obtain evs2 where e2: "events s' = events s2 @ evs2" and i3: "batteriesInRange s'"
          and d3: "rowDrone w s'"
          and b2: "batteryDiscipline ?mid (r = Inr (Some LowBattery)) (positionUpdates evs2) s'"
          using rowDrone_worker [of "nextWorker D w" w s'] by (auto simp: nextWorker_def)
        from discipline_compose [OF b1' b2]
        have "batteryDiscipline ?mid (r = Inr (Some LowBattery)) (positionUpdates (evs1 @ evs2)) s'"
          by (simp add: positionUpdates_append)
        with e1 e2 fr i3 d3 show ?thesis by auto
      qed
    qed
  qed
qed

lemma batteriesInRange_update:
  assumes "batteriesInRange s" and "drones s' = (drones s)(did \<mapsto> d')"
    and "0 \<le> battery d'" and "battery d' \<le> 100"
  shows "batteriesInRange s'"
  using assms unfolding batteriesInRange_def by (simp split: if_splits)

lemma batteriesInRange_status:
  assumes "batteriesInRange s" and "drones s did = Some d"
    and "drones s' = (drones s)(did \<mapsto> d\<lparr>dstatus := st\<rparr>)"
  shows "batteriesInRange s'"
proof -
  from assms(1,2) have "0 \<le> battery d \<and> battery d \<le> 100"
    unfolding batteriesInRange_def by blast
  then show ?thesis
    using batteriesInRange_update [OF assms(1) assms(3)] by simp
qed

lemma abortMission_cases:
  obtains (fail) e where "abortMission mid s = (Inl e, s)"
  | (ok) m d where "missions s mid = Some m" "drones s (droneId m) = Some d"
      "abortMission mid s =
        (Inr (m\<lparr>status := ABORTED, endTime := Some (now s)\<rparr>),
         s\<lparr>drones := (drones s)(droneId m \<mapsto> d\<lparr>dstatus := AVAILABLE\<rparr>),
           missions := (missions s)(mid \<mapsto> m\<lparr>status := ABORTED, endTime := Some (now s)\<rparr>),
           events := events s @ [(now s, DroneStatusEvent (droneId m) AVAILABLE),
                                 (now s, FleetStatsEvent),
                                 (now s, MissionStatusEvent mid ABORTED)]\<rparr>)"
proof (cases "missions s mid")
  case None
  then have "abortMission mid s = (Inl MissionNotFound, s)"
    by (simp add: abortMission_def getMissionById_def)
  then show ?thesis by (rule fail)
next
  case (Some m)
  show ?thesis
  proof (cases "status m = COMPLETED \<or> status m = ABORTED")
    case True
    with Some have "abortMission mid s = (Inl MissionAlreadyFinished, s)"
      by (auto simp: abortMission_def getMissionById_def)
    then show ?thesis by (rule fail)
  next
    case False
    show ?thesis
    proof (cases "drones s (droneId m)")
      case None
      with Some False have "abortMission mid s = (Inl RecordNotFound, s)"
        by (simp add: abortMission_def getMissionById_def updateDrone_def)
      then show ?thesis by (rule fail)
    next
      case d: (Some d)
      with Some False show ?thesis
        by (intro ok [of m d])
          (simp_all add: abortMission_def getMissionById_def updateDrone_def emit_def Let_def)
    qed
  qed
qed

lemma completeMission_cases:
  obtains (fail) e where "completeMission mid s = (Inl e, s)"
  | (ok) m d where "missions s mid = Some m" "drones s (droneId m) = Some d"
      "completeMission mid s =
        (Inr (m\<lparr>status := COMPLETED, endTime := Some (now s),
                 actualTime := Some (case startTime m of
                                       Some t \<Rightarrow> real_of_int (int (now s) - int t)
                                     | None \<Rightarrow> 0),
                 progress := 100\<rparr>),
         s\<lparr>drones := (drones s)(droneId m \<mapsto> d\<lparr>dstatus := AVAILABLE\<rparr>),
           missions := (missions s)(mid \<mapsto>
              m\<lparr>status := COMPLETED, endTime := Some (now s),
                 actualTime := Some (case startTime m of
                                       Some t \<Rightarrow> real_of_int (int (now s) - int t)
                                     | None \<Rightarrow> 0),
                 progress := 100\<rparr>),
           events := events s @ [(now s, DroneStatusEvent (droneId m) AVAILABLE),
                                 (now s, FleetStatsEvent),
                                 (now s, MissionStatusEvent mid COMPLETED)]\<rparr>)"
proof (cases "missions s mid")
  case None
  then have "completeMission mid s = (Inl MissionNotFound, s)"
    by (simp add: completeMission_def getMissionById_def)
  then show ?thesis by (rule fail)
next
  case (Some m)
  show ?thesis
  proof (cases "drones s (droneId m)")
    case None
    with Some have "completeMission mid s = (Inl RecordNotFound, s)"
      by (simp add: completeMission_def getMissionById_def updateDrone_def)
    then show ?thesis by (rule fail)
  next
    case d: (Some d)
    with Some show ?thesis
      by (intro ok [of m d])
        (simp_all add: completeMission_def getMissionById_def updateDrone_def emit_def Let_def)
  qed
qed

lemma abortMission_frame:
  assumes "abortMission mid s = (r, s')"
  shows "(\<exists>evs. events s' = events s @ evs \<and> positionUpdates evs = [])
         \<and> (batteriesInRange s \<longrightarrow> batteriesInRange s')
         \<and> waypoints s' = waypoints s \<and> waypointWrites s' = waypointWrites s"
proof (cases mid s rule: abortMission_cases)
  case (fail e)
  with assms show ?thesis by simp
next
  case (ok m d)
  with assms have s': "s' = s\<lparr>drones := (drones s)(droneId m \<mapsto> d\<lparr>dstatus := AVAILABLE\<rparr>),
           missions := (missions s)(mid \<mapsto> m\<lparr>status := ABORTED, endTime := Some (now s)\<rparr>),
           events := events s @ [(now s, DroneStatusEvent (droneId m) AVAILABLE),
                                 (now s, FleetStatsEvent),
                                 (now s, MissionStatusEvent mid ABORTED)]\<rparr>" by simp
  have "batteriesInRange s \<longrightarrow> batteriesInRange s'"
    using batteriesInRange_status [OF _ ok(2), of s' AVAILABLE] s' by simp
  with s' show ?thesis by simp
qed

lemma completeMission_frame:
  assumes "completeMission mid s = (r, s')"
  shows "(\<exists>evs. events s' = events s @ evs \<and> positionUpdates evs = [])
         \<and> (batteriesInRange s \<longrightarrow> batteriesInRange s')
         \<and> waypoints s' = waypoints s \<and> waypointWrites s' = waypointWrites s"
proof (cases mid s rule: completeMission_cases)
  case (fail e)
  with assms show ?thesis by simp
next
  case (ok m d)
  from assms ok(3) have dr: "drones s' = (drones s)(droneId m \<mapsto> d\<lparr>dstatus := AVAILABLE\<rparr>)"
    and ev: "events s' = events s @ [(now s, DroneStatusEvent (droneId m) AVAILABLE),
                                 (now s, FleetStatsEvent),
                                 (now s, MissionStatusEvent mid COMPLETED)]"
    and wp: "waypoints s' = waypoints s" "waypointWrites s' = waypointWrites s"
    by auto
  have "batteriesInRange s \<longrightarrow> batteriesInRange s'"
    using batteriesInRange_status [OF _ ok(2) dr] by simp
  with ev wp show ?thesis by simp
qed

lemma startWorker_Inr:
  assumes "startWorker mid s = Inr w"
  shows "missionId w = mid \<and> missions s mid = Some (mission w) \<and> wpts w = waypoints s mid
         \<and> currentWaypointIndex w = currentWaypoint (mission w)
         \<and> totalDistanceCovered w = distanceCovered (mission w) \<and> waypoints s mid \<noteq> []"
  using assms
  by (auto simp: startWorker_def getMissionById_def split: option.splits if_splits)

lemma simulate_trace:
  assumes inv: "batteriesInRange s" and sim: "simulate D mid s = (r, s')"
  shows "\<exists>evs. events s' = events s @ evs \<and> batteriesInRange s'
           \<and> batteryDiscipline mid (r = Inr (Stopped LowBattery)) (positionUpdates evs) s'"
proof (cases "startWorker mid s")
  case (Inl e)
  with sim have "s' = s" by (simp add: simulate_def)
  with inv show ?thesis by simp
next
  case (Inr w)
  from startWorker_Inr [OF Inr] have mid: "missionId w = mid"
    and row: "missions s mid = Some (mission w)" by simp_all
  from row mid have rd: "rowDrone w s" by (simp add: rowDrone_def)
  obtain r1 s1 where sl: "simulation_loop D w s = (r1, s1)" by (cases "simulation_loop D w s")
  from simulation_loop_trace [OF inv rd sl] mid
  obtain evs1 where e1: "events s1 = events s @ evs1" and i1: "batteriesInRange s1"
    and b1: "batteryDiscipline mid (r1 = Inr (Some LowBattery)) (positionUpdates evs1) s1"
    by auto
  show ?thesis
  proof (cases r1)
    case (Inl e)
    with Inr sl sim have "r = Inl e" "s' = s1" by (simp_all add: simulate_def)
    with e1 i1 b1 Inl show ?thesis by auto
  next
    case r: (Inr o1)
    show ?thesis
    proof (cases o1)
      case (Some out)
      with r Inr sl sim have "r = Inr (Stopped out)" "s' = s1" by (simp_all add: simulate_def)
      with e1 i1 b1 r Some show ?thesis by auto
    next
      case None
      with r b1 have b1': "batteryDiscipline mid False (positionUpdates evs1) s1" by simp
      obtain r2 s2 where c: "completeMission mid s1 = (r2, s2)"
        by (cases "completeMission mid s1")
      from completeMission_frame [OF c] i1 obtain evs2 where
        f: "events s2 = events s1 @ evs2" "positionUpdates evs2 = []" "batteriesInRange s2"
        by blast
      from None r Inr sl sim c have "s' = s2" by (auto simp: simulate_def split: sum.splits)
      with e1 f discipline_weaken [OF b1', of "r = Inr (Stopped LowBattery)" s2]
      show ?thesis by (auto simp: positionUpdates_append)
    qed
  qed
qed

text \<open>
  C6.  The claim: the abort of a mission that is neither COMPLETED nor ABORTED succeeds and
  leaves the mission ABORTED and its drone AVAILABLE, on whatever tick it is issued.
  \<open>abortMission\<close> does that; the simulation worker undoes it.  The worker reads the
  status at the head of its loop and leaves the loop when the mission is not ACTIVE, and
  what follows the loop is \<open>completeMission\<close>, which has no guard on the status.  So a
  worker of the mission that comes to the head of its loop after the abort (the step
  loop does not read the status after its last wait) leaves it as if the last waypoint
  had been reached, \<open>completeMission\<close> then turns the aborted mission into a COMPLETED
  one, and the job that is run on the aborted mission ends Completed, with the mission
  COMPLETED at a progress of 100.
\<close>

theorem abort_overwritten_by_worker:
  assumes m: "missions s mid = Some m" and nc: "status m \<noteq> COMPLETED"
    and na: "status m \<noteq> ABORTED" and d: "drones s (droneId m) = Some d"
    and wp: "waypoints s mid \<noteq> []"
  shows "\<exists>m1 s1 m2 s2.
           abortMission mid s = (Inr m1, s1) \<and> status m1 = ABORTED
         \<and> missions s1 mid = Some m1 \<and> droneStatusOf s1 (droneId m) = Some AVAILABLE
         \<and> (\<forall>w s'. missionId w = mid \<and> missions s' mid = Some m1
                 \<longrightarrow> simulation_loop D w s' = (Inr None, s'))
         \<and> (\<forall>s' d'. missions s' mid = Some m1 \<and> drones s' (droneId m) = Some d'
                 \<longrightarrow> (\<exists>m3 s3. completeMission mid s' = (Inr m3, s3)
                        \<and> missions s3 mid = Some m3 \<and> status m3 = COMPLETED
                        \<and> progress m3 = 100))
         \<and> process D mid s1 = (Inr Completed, s2)
         \<and> missions s2 mid = Some m2 \<and> status m2 = COMPLETED \<and> progress m2 = 100
         \<and> droneStatusOf s2 (droneId m) = Some AVAILABLE"
proof -
  define m1 where "m1 = m\<lparr>status := ABORTED, endTime := Some (now s)\<rparr>"
  define s1 where "s1 =
     s\<lparr>drones := (drones s)(droneId m \<mapsto> d\<lparr>dstatus := AVAILABLE\<rparr>),
       missions := (missions s)(mid \<mapsto> m1),
       events := events s @ [(now s, DroneStatusEvent (droneId m) AVAILABLE),
                             (now s, FleetStatsEvent),
                             (now s, MissionStatusEvent mid ABORTED)]\<rparr>"
  have ab: "abortMission mid s = (Inr m1, s1)"
    using m nc na d
    by (simp add: abortMission_def getMissionById_def updateDrone_Some emit_def Let_def
        m1_def s1_def)
  have r1: "status m1 = ABORTED" "missions s1 mid = Some m1"
    "droneStatusOf s1 (droneId m) = Some AVAILABLE" "droneId m1 = droneId m"
    "drones s1 (droneId m) = Some (d\<lparr>dstatus := AVAILABLE\<rparr>)"
    "waypoints s1 mid = waypoints s mid"
    by (simp_all add: m1_def s1_def droneStatusOf_def)
  have loop: "simulation_loop D w s' = (Inr None, s')"
    if "missionId w = mid" "missions s' mid = Some m1" for w s'
    using that r1(1) by (intro simulation_loop_break) simp
  define w where "w = \<lparr>missionId = mid, mission = m1, wpts = waypoints s mid,
      currentWaypointIndex = currentWaypoint m1, totalDistanceCovered = distanceCovered m1\<rparr>"
  have sw: "startWorker mid s1 = Inr w"
    using r1 wp by (simp add: startWorker_def getMissionById_def w_def)
  have sl: "simulation_loop D w s1 = (Inr None, s1)"
    by (rule loop) (simp_all add: w_def r1)
  define m2 where "m2 = m1\<lparr>status := COMPLETED, endTime := Some (now s1),
      actualTime := Some (case startTime m1 of
                            Some t \<Rightarrow> real_of_int (int (now s1) - int t) | None \<Rightarrow> 0),
      progress := 100\<rparr>"
  define s2 where "s2 =
     s1\<lparr>drones := (drones s1)(droneId m \<mapsto> d\<lparr>dstatus := AVAILABLE\<rparr>),
        missions := (missions s1)(mid \<mapsto> m2),
        events := events s1 @ [(now s1, DroneStatusEvent (droneId m) AVAILABLE),
                               (now s1, FleetStatsEvent),
                               (now s1, MissionStatusEvent mid COMPLETED)]\<rparr>"
  have co: "completeMission mid s1 = (Inr m2, s2)"
    using r1
    by (simp add: completeMission_def getMissionById_def updateDrone_Some emit_def Let_def
        m2_def s2_def)
  have pr: "process D mid s1 = (Inr Completed, s2)"
    by (simp add: process_def simulate_def sw sl co)
  have r2: "missions s2 mid = Some m2" "status m2 = COMPLETED" "progress m2 = 100"
    "droneStatusOf s2 (droneId m) = Some AVAILABLE"
    by (simp_all add: m2_def s2_def droneStatusOf_def)
  have fin: "\<exists>m3 s3. completeMission mid s' = (Inr m3, s3)
                \<and> missions s3 mid = Some m3 \<and> status m3 = COMPLETED \<and> progress m3 = 100"
    if "missions s' mid = Some m1" "drones s' (droneId m) = Some d'" for s' d'
    using that r1(4)
    by (simp add: completeMission_def getMissionById_def updateDrone_Some emit_def Let_def)
  from ab r1(1-3) loop fin pr r2 show ?thesis by blast
qed

text \<open>
  The mission in flight is aborted, and the job that is run on it afterwards leaves it
  COMPLETED.
\<close>

theorem abort_overwritten_by_worker_example:
  "\<exists>m1 s1 m2 s2.
      abortMission ''m1'' (storeIn ACTIVE) = (Inr m1, s1) \<and> status m1 = ABORTED
    \<and> missions s1 ''m1'' = Some m1 \<and> droneStatusOf s1 ''d1'' = Some AVAILABLE
    \<and> process calculateDistance ''m1'' s1 = (Inr Completed, s2)
    \<and> missions s2 ''m1'' = Some m2 \<and> status m2 = COMPLETED \<and> progress m2 = 100"
proof -
  have a: "missions (storeIn ACTIVE) ''m1'' = Some (mission1\<lparr>status := ACTIVE\<rparr>)"
    and b: "status (mission1\<lparr>status := ACTIVE\<rparr>) \<noteq> COMPLETED"
    and c: "status (mission1\<lparr>status := ACTIVE\<rparr>) \<noteq> ABORTED"
    and d: "drones (storeIn ACTIVE) (droneId (mission1\<lparr>status := ACTIVE\<rparr>)) = Some drone1"
    and e: "waypoints (storeIn ACTIVE) ''m1'' \<noteq> []"
    by (simp_all add: storeIn_def store1_def mission1_def)
  from abort_overwritten_by_worker [OF a b c d e, of calculateDistance]
  obtain m1 s1 m2 s2 where
    "abortMission ''m1'' (storeIn ACTIVE) = (Inr m1, s1)" "status m1 = ABORTED"
    "missions s1 ''m1'' = Some m1"
    "droneStatusOf s1 (droneId (mission1\<lparr>status := ACTIVE\<rparr>)) = Some AVAILABLE"
    "process calculateDistance ''m1'' s1 = (Inr Completed, s2)"
    "missions s2 ''m1'' = Some m2" "status m2 = COMPLETED" "progress m2 = 100"
    by blast
  then show ?thesis by (auto simp: mission1_def)
qed

text \<open>
  C5.  In a run of the job processor on a mission of positive speed, from a store whose
  batteries lie in [0, 100]: every battery reading the run reports in a drone position
  update lies in [0, 100], and so do the stored batteries afterwards; a reading below 10
  is the last position update of the run; and when the last reading is below 10, the run
  has returned for low battery, the clock still shows the time of that reading (the tick
  has not ended), and the mission is ABORTED with that time as its end.  A segment
  without steps is among the runs: its one position update carries the drained battery
  like any other.
\<close>

theorem low_battery_ends_run:
  assumes inv: "batteriesInRange s"
    and sp: "\<forall>m. missions s mid = Some m \<longrightarrow> 0 < speed m"
    and run: "process D mid s = (r, s')"
  shows "\<exists>evs. events s' = events s @ evs \<and> batteriesInRange s'
           \<and> (\<forall>x\<in>set (positionUpdates evs). 0 \<le> snd x \<and> snd x \<le> 100)
           \<and> (\<forall>x\<in>set (butlast (positionUpdates evs)). 10 \<le> snd x)
           \<and> (positionUpdates evs \<noteq> [] \<and> snd (last (positionUpdates evs)) < 10 \<longrightarrow>
                 r = Inr (Stopped LowBattery) \<and> now s' = fst (last (positionUpdates evs))
                 \<and> (\<exists>m. missions s' mid = Some m \<and> status m = ABORTED
                        \<and> endTime m = Some (fst (last (positionUpdates evs)))))"
proof -
  obtain r1 s1 where sim: "simulate D mid s = (r1, s1)" by (cases "simulate D mid s")
  from simulate_trace [OF inv sim]
  obtain evs1 where e1: "events s1 = events s @ evs1" and i1: "batteriesInRange s1"
    and b1: "batteryDiscipline mid (r1 = Inr (Stopped LowBattery)) (positionUpdates evs1) s1"
    by auto
  have "\<exists>evs. events s' = events s @ evs \<and> batteriesInRange s'
           \<and> batteryDiscipline mid (r = Inr (Stopped LowBattery)) (positionUpdates evs) s'"
  proof (cases r1)
    case (Inr out)
    with sim run have "r = r1" "s' = s1" by (simp_all add: process_def)
    with e1 i1 b1 show ?thesis by auto
  next
    case (Inl e)
    with b1 have b1': "batteryDiscipline mid False (positionUpdates evs1) s1" by simp
    obtain r2 s2 where a: "abortMission mid s1 = (r2, s2)" by (cases "abortMission mid s1")
    from abortMission_frame [OF a] i1 obtain evs2 where
      f: "events s2 = events s1 @ evs2" "positionUpdates evs2 = []" "batteriesInRange s2"
      by blast
    from Inl sim run a have "s' = s2" by (auto simp: process_def split: sum.splits)
    with e1 f discipline_weaken [OF b1', of "r = Inr (Stopped LowBattery)" s2]
    show ?thesis by (auto simp: positionUpdates_append)
  qed
  then show ?thesis unfolding batteryDiscipline_def by blast
qed

lemma calculateDistance_equator:
  assumes "x \<le> y" and "y - x \<le> 180"
  shows "calculateDistance (x, 0) (y, 0) = earthRadius * ((y - x) * pi / 180)"
proof -
  let ?t = "(y - x) * pi / 180 / 2"
  have t0: "0 \<le> ?t" using assms by simp
  have t1: "?t \<le> pi / 2"
  proof -
    have "(y - x) * pi \<le> 180 * pi" using assms by (simp add: mult_right_mono)
    then show ?thesis by simp
  qed
  have tp: "?t \<le> pi" using t1 pi_ge_zero by linarith
  have s0: "0 \<le> sin ?t" by (rule sin_ge_zero [OF t0 tp])
  have "sqrt ((sin ?t)\<^sup>2) = sin ?t" using s0 by simp
  moreover have tm: "- (pi / 2) \<le> ?t" using t0 pi_ge_zero by linarith
  have "arcsin (sin ?t) = ?t" by (rule arcsin_sin [OF tm t1])
  ultimately show ?thesis
    by (simp add: calculateDistance_def degreesToRadians_def Let_def)
qed

lemma calculateDistance_AB:
  "calculateDistance (0, 0) (1 / 1000, 0) = earthRadius * (pi / 180000)"
  using calculateDistance_equator [of 0 "1 / 1000"] by simp

lemma iteration_low_stops:
  assumes "missions s (missionId w) = Some cm" and "status cm = ACTIVE"
    and "drones s (droneId (mission w)) = Some cd"
    and "battery cd - batteryDrainRate < 10"
  shows "fst (iteration D w step s) \<noteq> Inr None"
proof -
  from assms(4) have nb: "max 0 (battery cd - batteryDrainRate) < 10" by simp
  show ?thesis
    using assms(1-3) nb
    by (simp add: iteration_def updateDronePosition_Some Let_def
        split: prod.splits sum.splits)
qed

lemma segment_loop_active:
  assumes "segment_loop D w step s = (Inr None, s')"
    and "missions s (missionId w) = Some m" and "status m = ACTIVE"
  shows "\<exists>m'. missions s' (missionId w) = Some m' \<and> status m' = ACTIVE"
  using assms
proof (induction D w step s arbitrary: m rule: segment_loop.induct)
  case (1 D w step s)
  show ?case
  proof (cases "int step \<le> steps D w")
    case False
    with "1.prems" show ?thesis by (simp add: segment_loop_done)
  next
    case True
    obtain r1 s1 where it: "iteration D w step s = (r1, s1)" by (cases "iteration D w step s")
    from segment_loop_step [OF True it] "1.prems"(1)
    have r1: "r1 = Inr None" and rec: "segment_loop D w (Suc step) s1 = (Inr None, s')"
      by (auto split: if_splits)
    have "\<exists>m1. missions s1 (missionId w) = Some m1 \<and> status m1 = ACTIVE"
    proof (cases D w step s rule: iteration_cases)
      case (continue cm cd)
      from iteration_continue [OF continue, of step] it show ?thesis
        using continue(2) by auto
    next
      case (undefined cm cd)
      from iteration_undefined [OF undefined, of step] it r1 show ?thesis by simp
    next
      case (low cm cd)
      from iteration_low_stops [OF low, where D = D and step = step] it r1 show ?thesis by simp
    qed (use it r1 in auto)
    then obtain m1 where m1: "missions s1 (missionId w) = Some m1" "status m1 = ACTIVE" by blast
    from "1.IH" [OF True it [symmetric] r1 refl rec m1] show ?thesis .
  qed
qed


lemma iteration_low_abort:
  assumes "missions s (missionId w) = Some cm" and "status cm = ACTIVE"
    and "drones s (droneId (mission w)) = Some cd"
    and "battery cd - batteryDrainRate < 10"
  shows "\<exists>s3. waypoints s3 = waypoints s \<and> waypointWrites s3 = waypointWrites s
           \<and> iteration D w step s =
               (case abortMission (missionId w) s3 of
                  (Inl e, s4) \<Rightarrow> (Inl e, s4)
                | (Inr _, s4) \<Rightarrow> (Inr (Some LowBattery), s4))"
proof -
  from assms(4) have nb: "max 0 (battery cd - batteryDrainRate) < 10" by simp
  then have nb20: "max 0 (battery cd - batteryDrainRate) < 20" by simp
  define s3 where "s3 =
     s\<lparr>drones := (drones s)(droneId (mission w) \<mapsto>
            cd\<lparr>dlongitude := Some (fst (stepCoordinates D w step)),
               dlatitude := Some (fst (snd (stepCoordinates D w step))),
               daltitude := Some (snd (snd (stepCoordinates D w step))),
               battery := max 0 (battery cd - batteryDrainRate),
               dstatus := CHARGING\<rparr>),
        events := events s
          @ [(now s, DroneStatusEvent (droneId (mission w)) CHARGING), (now s, FleetStatsEvent),
             (now s, DronePositionEvent (droneId (mission w))
                (fst (snd (stepCoordinates D w step))) (fst (stepCoordinates D w step))
                (snd (snd (stepCoordinates D w step))) (max 0 (battery cd - batteryDrainRate))
                (speed (mission w)))]\<rparr>"
  have "iteration D w step s =
               (case abortMission (missionId w) s3 of
                  (Inl e, s4) \<Rightarrow> (Inl e, s4)
                | (Inr _, s4) \<Rightarrow> (Inr (Some LowBattery), s4))"
    using assms(1-3) nb nb20
    by (simp add: iteration_def updateDronePosition_Some updateDroneBattery_def updateDrone_def
        Let_def emit_def s3_def)
  moreover have "waypoints s3 = waypoints s" "waypointWrites s3 = waypointWrites s"
    by (simp_all add: s3_def)
  ultimately show ?thesis by blast
qed

lemma iteration_frame:
  assumes "iteration D w step s = (r, s')"
  shows "waypoints s' = waypoints s \<and> waypointWrites s' = waypointWrites s"
proof (cases D w step s rule: iteration_cases)
  case (continue cm cd)
  from iteration_continue [OF continue, of step] assms show ?thesis by auto
next
  case (undefined cm cd)
  from iteration_undefined [OF undefined, of step] assms show ?thesis by auto
next
  case (low cm cd)
  from iteration_low_abort [OF low, where D = D and step = step] obtain s3 where
    w3: "waypoints s3 = waypoints s" "waypointWrites s3 = waypointWrites s"
    and it: "iteration D w step s =
               (case abortMission (missionId w) s3 of
                  (Inl e, s4) \<Rightarrow> (Inl e, s4)
                | (Inr _, s4) \<Rightarrow> (Inr (Some LowBattery), s4))" by blast
  obtain r4 s4 where a: "abortMission (missionId w) s3 = (r4, s4)"
    by (cases "abortMission (missionId w) s3")
  from it a assms have "s' = s4" by (cases r4) simp_all
  with abortMission_frame [OF a] w3 show ?thesis by simp
qed (use assms in auto)

lemma segment_loop_frame:
  assumes "segment_loop D w step s = (r, s')"
  shows "waypoints s' = waypoints s \<and> waypointWrites s' = waypointWrites s"
  using assms
proof (induction D w step s rule: segment_loop.induct)
  case (1 D w step s)
  show ?case
  proof (cases "int step \<le> steps D w")
    case False
    with "1.prems" show ?thesis by (simp add: segment_loop_done)
  next
    case True
    obtain r1 s1 where it: "iteration D w step s = (r1, s1)" by (cases "iteration D w step s")
    note f1 = iteration_frame [OF it]
    show ?thesis
    proof (cases "r1 = Inr None")
      case False
      with segment_loop_step [OF True it] "1.prems" have "s' = s1" by simp
      with f1 show ?thesis by simp
    next
      case cont: True
      with segment_loop_step [OF True it] "1.prems"
      have rec: "segment_loop D w (Suc step) s1 = (r, s')" by simp
      from "1.IH" [OF True it [symmetric] cont refl rec] f1 show ?thesis by simp
    qed
  qed
qed

lemma simulation_loop_marks:
  assumes "simulation_loop D w s = (Inr None, s')"
    and "missions s (missionId w) = Some m" and "status m = ACTIVE"
  shows "waypointWrites s' = waypointWrites s
           @ map (Pair (missionId w)) [currentWaypointIndex w + 1 ..< length (wpts w)]
       \<and> length (waypoints s' (missionId w)) = length (waypoints s (missionId w))
       \<and> (\<forall>i. i \<le> currentWaypointIndex w \<longrightarrow>
              waypoints s' (missionId w) ! i = waypoints s (missionId w) ! i)
       \<and> (\<forall>i. currentWaypointIndex w < i \<and> i < length (wpts w) \<longrightarrow>
              reached (waypoints s' (missionId w) ! i)
              \<and> reachedAt (waypoints s' (missionId w) ! i) \<noteq> None)"
  using assms
proof (induction D w s arbitrary: m rule: simulation_loop.induct)
  case (1 D w s)
  let ?mid = "missionId w" and ?i = "currentWaypointIndex w"
  show ?case
  proof (cases "?i < length (wpts w) - 1")
    case False
    with "1.prems"(1) have "s' = s" by (simp add: simulation_loop_exit)
    with False show ?thesis by auto
  next
    case g: True
    note m = "1.prems"(2) and a = "1.prems"(3)
    from a have na: "\<not> status m \<noteq> ACTIVE" by simp
    obtain r1 s1 where sl: "segment_loop D w 0 s = (r1, s1)" by (cases "segment_loop D w 0 s")
    obtain r2 s2 where mr: "markReached ?mid (?i + 1) s1 = (r2, s2)"
      by (cases "markReached ?mid (?i + 1) s1")
    note unf = simulation_loop_segment [OF g m a sl mr]
    from unf "1.prems"(1) have r1: "r1 = Inr None" by (auto split: if_splits)
    with unf "1.prems"(1) obtain u where r2: "r2 = Inr u"
      and rec: "simulation_loop D (nextWorker D w) s2 = (Inr None, s')"
      by (cases r2) auto
    from segment_loop_frame [OF sl] have f1: "waypoints s1 = waypoints s"
      "waypointWrites s1 = waypointWrites s" by simp_all
    from segment_loop_active [OF sl [unfolded r1] m a]
    obtain m1 where m1: "missions s1 ?mid = Some m1" "status m1 = ACTIVE" by blast
    from mr r2 have ok: "?i + 1 < length (waypoints s1 ?mid)"
      and s2: "s2 = s1\<lparr>waypoints := (waypoints s1)(?mid :=
                        (waypoints s1 ?mid)[?i + 1 := (waypoints s1 ?mid ! (?i + 1))
                           \<lparr>reached := True, reachedAt := Some (now s1)\<rparr>]),
                      waypointWrites := waypointWrites s1 @ [(?mid, ?i + 1)]\<rparr>"
      by (cases ?mid "?i + 1" s1 rule: markReached_cases; simp)+
    from s2 m1 have m2: "missions s2 (missionId (nextWorker D w)) = Some m1"
      by (simp add: nextWorker_def)
    from "1.IH" [OF g m na sl [symmetric] r1 refl mr [symmetric] r2 rec m2 m1(2)]
    have ih: "waypointWrites s' = waypointWrites s2
           @ map (Pair ?mid) [?i + 2 ..< length (wpts w)]"
       "length (waypoints s' ?mid) = length (waypoints s2 ?mid)"
       "\<forall>j. j \<le> ?i + 1 \<longrightarrow> waypoints s' ?mid ! j = waypoints s2 ?mid ! j"
       "\<forall>j. ?i + 1 < j \<and> j < length (wpts w) \<longrightarrow>
              reached (waypoints s' ?mid ! j) \<and> reachedAt (waypoints s' ?mid ! j) \<noteq> None"
      by (simp_all add: nextWorker_def)
    from g have upt: "[?i + 1 ..< length (wpts w)] = (?i + 1) # [?i + 2 ..< length (wpts w)]"
      by (simp add: upt_conv_Cons)
    have w: "waypointWrites s' = waypointWrites s @ map (Pair ?mid) [?i + 1 ..< length (wpts w)]"
      using ih(1) s2 f1 upt by simp
    have l: "length (waypoints s' ?mid) = length (waypoints s ?mid)"
      using ih(2) s2 f1 by simp
    have low: "\<forall>j. j \<le> ?i \<longrightarrow> waypoints s' ?mid ! j = waypoints s ?mid ! j"
      using ih(3) s2 f1 by simp
    have nxt: "reached (waypoints s' ?mid ! (?i + 1))
               \<and> reachedAt (waypoints s' ?mid ! (?i + 1)) \<noteq> None"
      using ih(3) s2 ok by simp
    have high: "\<forall>j. ?i < j \<and> j < length (wpts w) \<longrightarrow>
              reached (waypoints s' ?mid ! j) \<and> reachedAt (waypoints s' ?mid ! j) \<noteq> None"
    proof (intro allI impI)
      fix j assume j: "?i < j \<and> j < length (wpts w)"
      show "reached (waypoints s' ?mid ! j) \<and> reachedAt (waypoints s' ?mid ! j) \<noteq> None"
      proof (cases "j = ?i + 1")
        case True
        with nxt show ?thesis by simp
      next
        case False
        with j have "?i + 1 < j \<and> j < length (wpts w)" by simp
        with ih(4) show ?thesis by blast
      qed
    qed
    from w l low high show ?thesis by simp
  qed
qed

lemma process_Completed:
  assumes "process D mid s = (Inr Completed, s')"
  obtains w s1 where "startWorker mid s = Inr w" "simulation_loop D w s = (Inr None, s1)"
    "completeMission mid s1 = (Inr (the (missions s' mid)), s')"
proof -
  from assms have sim: "simulate D mid s = (Inr Completed, s')"
    by (auto simp: process_def split: prod.splits sum.splits)
  then obtain w where w: "startWorker mid s = Inr w"
    by (cases "startWorker mid s") (auto simp: simulate_def)
  obtain r1 s1 where sl: "simulation_loop D w s = (r1, s1)" by (cases "simulation_loop D w s")
  from sim w sl have r1: "r1 = Inr None"
    by (auto simp: simulate_def split: sum.splits option.splits prod.splits)
  obtain r2 s2 where c: "completeMission mid s1 = (r2, s2)" by (cases "completeMission mid s1")
  from sim w sl r1 c have s2: "s2 = s'" and "\<exists>m'. r2 = Inr m'"
    by (auto simp: simulate_def split: sum.splits)
  then obtain m' where r2: "r2 = Inr m'" by blast
  have "missions s' mid = Some m'"
    using c r2 s2 by (cases mid s1 rule: completeMission_cases) auto
  with c r2 s2 have "completeMission mid s1 = (Inr (the (missions s' mid)), s')" by simp
  with w sl r1 that show ?thesis by blast
qed

text \<open>
  C8.  The claim: at normal completion every waypoint, the first included, is reached,
  each marked exactly once.  The loop marks the waypoint at the end of each segment
  only.  A run on an ACTIVE mission that ends Completed writes the rows after the
  mission's cursor, each exactly once and in order, and leaves them reached with a time;
  the rows up to the cursor, the first waypoint among them, are left as they were.
\<close>

theorem completed_run_marks_waypoints_after_cursor:
  assumes m: "missions s mid = Some m" and a: "status m = ACTIVE"
    and run: "process D mid s = (Inr Completed, s')"
  shows "waypointWrites s' = waypointWrites s
           @ map (Pair mid) [currentWaypoint m + 1 ..< length (waypoints s mid)]
       \<and> (\<forall>i. currentWaypoint m < i \<and> i < length (waypoints s mid) \<longrightarrow>
              reached (waypoints s' mid ! i) \<and> reachedAt (waypoints s' mid ! i) \<noteq> None)
       \<and> (\<forall>i. i \<le> currentWaypoint m \<longrightarrow> waypoints s' mid ! i = waypoints s mid ! i)"
proof -
  from run obtain w s1 where w: "startWorker mid s = Inr w"
    and sl: "simulation_loop D w s = (Inr None, s1)"
    and c: "completeMission mid s1 = (Inr (the (missions s' mid)), s')"
    by (rule process_Completed)
  from startWorker_Inr [OF w] m have wf: "missionId w = mid" "mission w = m"
    "wpts w = waypoints s mid" "currentWaypointIndex w = currentWaypoint m" by simp_all
  from m wf have m': "missions s (missionId w) = Some m" by simp
  from simulation_loop_marks [OF sl m' a] wf completeMission_frame [OF c]
  show ?thesis by simp
qed

lemma segment_loop_completes:
  assumes "missions s (missionId w) = Some cm" and "status cm = ACTIVE"
    and "steps D w \<noteq> 0" and "drones s (droneId (mission w)) = Some cd"
    and "n = nat (steps D w + 1 - int step)"
    and "10 \<le> battery cd - batteryDrainRate * real n"
  shows "\<exists>s' cm' cd'. segment_loop D w step s = (Inr None, s')
           \<and> missions s' (missionId w) = Some cm' \<and> status cm' = ACTIVE
           \<and> droneId cm' = droneId cm \<and> startTime cm' = startTime cm
           \<and> drones s' (droneId (mission w)) = Some cd'
           \<and> battery cd' = battery cd - batteryDrainRate * real n
           \<and> now s' = now s + n"
  using assms
proof (induction n arbitrary: step s cm cd)
  case 0
  then have "\<not> int step \<le> steps D w" by simp
  with 0 show ?case by (simp add: segment_loop_done)
next
  case (Suc n)
  from Suc.prems(5) have le: "int step \<le> steps D w" and n: "n = nat (steps D w + 1 - int (Suc step))"
    by simp_all
  have dr: "0 \<le> batteryDrainRate" by (simp add: batteryDrainRate_def)
  have e: "batteryDrainRate * real (Suc n) = batteryDrainRate + batteryDrainRate * real n"
    by (simp add: algebra_simps)
  have p: "0 \<le> batteryDrainRate * real n" using dr by simp
  from Suc.prems(6) e p have b1: "10 \<le> battery cd - batteryDrainRate" by linarith
  from Suc.prems(6) e have b2: "10 \<le> (battery cd - batteryDrainRate) - batteryDrainRate * real n"
    by linarith
  note it = iteration_continue [OF Suc.prems(1-4) b1, of step]
  let ?s1 = "snd (iteration D w step s)"
  from it have it': "iteration D w step s = (Inr None, ?s1)" by simp
  from it have m1: "missions ?s1 (missionId w) =
      Some (cm\<lparr>progress := overallProgress D w (stepPosition D w step),
               currentWaypoint := currentWaypointIndex w,
               distanceCovered := coveredDistance D w (stepPosition D w step)\<rparr>)" by simp
  from it obtain cd1 where d1: "drones ?s1 (droneId (mission w)) = Some cd1"
    and bat: "battery cd1 = battery cd - batteryDrainRate" by simp
  from it have now1: "now ?s1 = now s + 1" by simp
  from b2 bat have b2': "10 \<le> battery cd1 - batteryDrainRate * real n" by simp
  from Suc.IH [OF m1 _ Suc.prems(3) d1 n b2'] Suc.prems(2)
  obtain s' cm' cd' where rec: "segment_loop D w (Suc step) ?s1 = (Inr None, s')"
    and r: "missions s' (missionId w) = Some cm'" "status cm' = ACTIVE"
       "droneId cm' = droneId cm" "startTime cm' = startTime cm"
       "drones s' (droneId (mission w)) = Some cd'"
       "battery cd' = battery cd1 - batteryDrainRate * real n" "now s' = now ?s1 + n"
    by auto
  from segment_loop_step [OF le it'] rec have "segment_loop D w step s = (Inr None, s')" by simp
  with r bat now1 show ?case by (auto simp: algebra_simps)
qed

lemma interpolatePosition_0: "interpolatePosition from to (0::real) = from"
  by (simp add: interpolatePosition_def)

lemma interpolatePosition_1: "interpolatePosition from to (1::real) = to"
  by (simp add: interpolatePosition_def)

lemma steps_nonzero_distance: "steps D w \<noteq> 0 \<Longrightarrow> segmentDistance D w \<noteq> 0"
  by (auto simp: steps_def)

lemma segmentProgress_start:
  "steps D w \<noteq> 0 \<Longrightarrow> segmentProgress D w (stepPosition D w 0) = 0"
  using steps_nonzero_distance [of D w]
  by (simp add: segmentProgress_def stepPosition_def interpolatePosition_0 segmentDistance_def)

text \<open>
  C2.  The claim: after pause and resume the worker reproduces the progress and the
  distance it had persisted, with no double counting.  The worker that resumes starts
  the segment of the persisted cursor again at its first step, and takes the persisted
  distance, which holds the part of the segment already flown, as the distance up to the
  segment's start.  So the first progress it persists is the cursor's share alone, below
  the progress persisted before the pause, and at the end of the segment the part flown
  before the pause is counted a second time.
\<close>

theorem resume_restarts_segment:
  assumes m: "missions s (missionId w) = Some cm" and a: "status cm = ACTIVE"
    and sp: "speed cm = speed (mission w)" and di: "droneId cm = droneId (mission w)"
    and wp: "wpts w = waypoints s (missionId w)"
    and cur: "currentWaypointIndex w + 1 < length (wpts w)"
    and st: "steps D w \<noteq> 0" and d: "drones s (droneId (mission w)) = Some cd"
    and b: "10 \<le> battery cd - 2 * batteryDrainRate"
    and pr: "0 < segmentProgress D w (stepPosition D w k)"
  shows "\<exists>s1 m2 s2 m3 s3 w' s4 m4.
       iteration D w k s = (Inr None, s1)
     \<and> pauseMission (missionId w) s1 = (Inr m2, s2)
     \<and> iteration D w (Suc k) s2 = (Inr (Some PausedDuringSegment), s2)
     \<and> resumeMission (missionId w) s2 = (Inr m3, s3)
     \<and> progress m3 = overallProgress D w (stepPosition D w k)
     \<and> distanceCovered m3 = coveredDistance D w (stepPosition D w k)
     \<and> startWorker (missionId w) s3 = Inr w'
     \<and> currentWaypointIndex w' = currentWaypointIndex w
     \<and> totalDistanceCovered w' = totalDistanceCovered w
          + segmentDistance D w * segmentProgress D w (stepPosition D w k)
     \<and> iteration D w' 0 s3 = (Inr None, s4)
     \<and> missions s4 (missionId w) = Some m4
     \<and> progress m4 = real (currentWaypointIndex w) / real (length (wpts w)) * 100
     \<and> progress m4 < progress m3
     \<and> coveredDistance D w' (stepPosition D w' (nat (steps D w')))
         = coveredDistance D w (stepPosition D w (nat (steps D w)))
           + segmentDistance D w * segmentProgress D w (stepPosition D w k)"
proof -
  let ?mid = "missionId w" and ?did = "droneId (mission w)"
  have dr: "batteryDrainRate = 1 / 10" by (simp add: batteryDrainRate_def)
  from b dr have b1: "10 \<le> battery cd - batteryDrainRate" by simp
  define p where "p = stepPosition D w k"
  define cm1 where "cm1 = cm\<lparr>progress := overallProgress D w p,
      currentWaypoint := currentWaypointIndex w, distanceCovered := coveredDistance D w p\<rparr>"
  obtain s1 where it1: "iteration D w k s = (Inr None, s1)"
    and m1: "missions s1 = (missions s)(?mid \<mapsto> cm1)"
    and d1: "\<exists>cd1. drones s1 ?did = Some cd1 \<and> battery cd1 = battery cd - batteryDrainRate"
    and w1: "waypoints s1 = waypoints s"
    using iteration_continue [OF m a st d b1, of k] by (simp add: cm1_def p_def)
  from d1 obtain cd1 where cd1: "drones s1 ?did = Some cd1"
    "battery cd1 = battery cd - batteryDrainRate" by blast
  define m2 where "m2 = cm1\<lparr>status := PAUSED\<rparr>"
  define s2 where "s2 = emit [MissionStatusEvent ?mid PAUSED]
      (s1\<lparr>missions := (missions s1)(?mid \<mapsto> m2)\<rparr>)"
  have pa: "pauseMission ?mid s1 = (Inr m2, s2)"
    using m1 a by (simp add: pauseMission_def getMissionById_def cm1_def m2_def s2_def Let_def)
  have ms2: "missions s2 ?mid = Some m2" by (simp add: s2_def emit_def)
  have it2: "iteration D w (Suc k) s2 = (Inr (Some PausedDuringSegment), s2)"
    using ms2 by (simp add: iteration_def m2_def)
  define m3 where "m3 = m2\<lparr>status := ACTIVE\<rparr>"
  define s3 where "s3 = emit [MissionStatusEvent ?mid ACTIVE]
      (s2\<lparr>missions := (missions s2)(?mid \<mapsto> m3)\<rparr>)"
  have re: "resumeMission ?mid s2 = (Inr m3, s3)"
    using ms2 by (simp add: resumeMission_def getMissionById_def m2_def m3_def s3_def Let_def)
  have ms3: "missions s3 ?mid = Some m3" by (simp add: s3_def emit_def)
  have a3: "status m3 = ACTIVE" by (simp add: m3_def)
  have w3: "waypoints s3 ?mid = wpts w" using w1 wp by (simp add: s3_def s2_def emit_def)
  have d3: "drones s3 ?did = Some cd1" using cd1 by (simp add: s3_def s2_def emit_def)
  have f3: "progress m3 = overallProgress D w p" "distanceCovered m3 = coveredDistance D w p"
    "currentWaypoint m3 = currentWaypointIndex w" "speed m3 = speed (mission w)"
    "droneId m3 = ?did"
    using sp di by (simp_all add: m3_def m2_def cm1_def)
  define w' where "w' = \<lparr>missionId = ?mid, mission = m3, wpts = wpts w,
      currentWaypointIndex = currentWaypointIndex w,
      totalDistanceCovered = coveredDistance D w p\<rparr>"
  from cur have ne: "wpts w \<noteq> []" by auto
  have sw: "startWorker ?mid s3 = Inr w'"
    using ms3 w3 d3 ne f3 by (simp add: startWorker_def getMissionById_def w'_def)
  have seg: "segmentFrom w' = segmentFrom w" "segmentTo w' = segmentTo w"
    by (simp_all add: segmentFrom_def segmentTo_def w'_def)
  then have sd: "segmentDistance D w' = segmentDistance D w" by (simp add: segmentDistance_def)
  with f3 have st': "steps D w' = steps D w" by (simp add: steps_def w'_def)
  have pos: "stepPosition D w' j = stepPosition D w j" for j
    by (simp add: stepPosition_def seg st')
  have spr: "segmentProgress D w' q = segmentProgress D w q" for q
    by (simp add: segmentProgress_def seg sd)
  have ms3': "missions s3 (missionId w') = Some m3" using ms3 by (simp add: w'_def)
  have d3': "drones s3 (droneId (mission w')) = Some cd1" using d3 f3 by (simp add: w'_def)
  from b cd1 dr have b3: "10 \<le> battery cd1 - batteryDrainRate" by simp
  from st st' have st3: "steps D w' \<noteq> 0" by simp
  define m4 where "m4 = m3\<lparr>progress := overallProgress D w' (stepPosition D w' 0),
      currentWaypoint := currentWaypointIndex w',
      distanceCovered := coveredDistance D w' (stepPosition D w' 0)\<rparr>"
  obtain s4 where it4: "iteration D w' 0 s3 = (Inr None, s4)"
    and ms4: "missions s4 = (missions s3)(missionId w' \<mapsto> m4)"
    using iteration_continue [OF ms3' a3 st3 d3' b3, of 0] by (simp add: m4_def)
  from ms4 have ms4': "missions s4 ?mid = Some m4" by (simp add: w'_def)
  have sp0: "segmentProgress D w' (stepPosition D w' 0) = 0"
    by (rule segmentProgress_start [OF st3])
  have cw: "currentWaypointIndex w' = currentWaypointIndex w" and wl: "wpts w' = wpts w"
    by (simp_all add: w'_def)
  have p4: "progress m4 = real (currentWaypointIndex w) / real (length (wpts w)) * 100"
    by (simp add: m4_def overallProgress_def waypointsCompleted_def sp0 cw wl)
  have n0: "0 < real (length (wpts w))" using ne by simp
  have p3: "progress m3 = (real (currentWaypointIndex w) + segmentProgress D w p)
                            / real (length (wpts w)) * 100"
    by (simp add: f3 overallProgress_def waypointsCompleted_def)
  have less: "progress m4 < progress m3"
    unfolding p4 p3 using pr n0 by (simp add: p_def divide_strict_right_mono)
  have tot: "totalDistanceCovered w' = totalDistanceCovered w
          + segmentDistance D w * segmentProgress D w p"
    by (simp add: w'_def coveredDistance_def)
  have cov: "coveredDistance D w' (stepPosition D w' (nat (steps D w')))
         = coveredDistance D w (stepPosition D w (nat (steps D w)))
           + segmentDistance D w * segmentProgress D w p"
    by (simp add: coveredDistance_def pos spr sd st' tot)
  from it1 pa it2 re f3(1,2) sw cw tot it4 ms4' p4 less cov
  show ?thesis unfolding p_def by blast
qed

lemma updateDroneBattery_charging:
  assumes "drones s did = Some d" and "b < 20"
  shows "\<exists>s'. updateDroneBattery did b s = (Inr (), s')
           \<and> drones s' did = Some (d\<lparr>battery := b, dstatus := CHARGING\<rparr>)"
  using assms by (simp add: updateDroneBattery_def updateDrone_def Let_def emit_def)

text \<open>
  C10.  \<open>updateDroneBattery\<close> with a value below 20 sets the drone CHARGING whatever its
  status was; and an iteration of the step loop whose new battery value lies in
  [10, 20) goes on with the drone CHARGING and the mission still ACTIVE.
\<close>

theorem low_battery_charging_while_active:
  assumes d0: "drones s0 did = Some d0" and b0: "b < 20"
    and m: "missions s (missionId w) = Some cm" and a: "status cm = ACTIVE"
    and st: "steps D w \<noteq> 0" and d: "drones s (droneId (mission w)) = Some cd"
    and lo: "10 \<le> battery cd - batteryDrainRate" and hi: "battery cd - batteryDrainRate < 20"
  shows "(\<exists>s1. updateDroneBattery did b s0 = (Inr (), s1)
            \<and> droneStatusOf s1 did = Some CHARGING)
       \<and> (\<exists>s' m'. iteration D w step s = (Inr None, s')
            \<and> droneStatusOf s' (droneId (mission w)) = Some CHARGING
            \<and> missions s' (missionId w) = Some m' \<and> status m' = ACTIVE)"
proof
  from updateDroneBattery_charging [OF d0 b0]
  show "\<exists>s1. updateDroneBattery did b s0 = (Inr (), s1) \<and> droneStatusOf s1 did = Some CHARGING"
    by (auto simp: droneStatusOf_def)
next
  from iteration_continue [OF m a st d lo, of step] hi a
  show "\<exists>s' m'. iteration D w step s = (Inr None, s')
            \<and> droneStatusOf s' (droneId (mission w)) = Some CHARGING
            \<and> missions s' (missionId w) = Some m' \<and> status m' = ACTIVE"
    by (simp add: droneStatusOf_def)
qed

lemma startWorker_storeAt: "startWorker ''m1'' (storeAt b) = Inr worker1"
  by (simp add: startWorker_def getMissionById_def storeAt_def storeIn_def store1_def
      mission1_def worker1_def)

lemma storeAt_rows:
  "missions (storeAt b) ''m1'' = Some (mission1\<lparr>status := ACTIVE\<rparr>)"
  "drones (storeAt b) ''d1'' = Some (drone1\<lparr>battery := b\<rparr>)"
  "waypoints (storeAt b) ''m1'' = [waypointA, waypointB]"
  "events (storeAt b) = []" "waypointWrites (storeAt b) = []" "now (storeAt b) = 0"
  by (simp_all add: storeAt_def storeIn_def store1_def)

lemma worker1_fields:
  "missionId worker1 = ''m1''" "droneId (mission worker1) = ''d1''"
  "speed (mission worker1) = 10" "wpts worker1 = [waypointA, waypointB]"
  "currentWaypointIndex worker1 = 0" "totalDistanceCovered worker1 = 0"
  "status (mission worker1) = ACTIVE"
  by (simp_all add: worker1_def mission1_def)

lemma segment1:
  "segmentFrom worker1 = (0, 0, 50)" "segmentTo worker1 = (1 / 1000, 0, 50)"
  by (simp_all add: segmentFrom_def segmentTo_def worker1_def position3_def waypointA_def
      waypointB_def)

lemma segmentDistance1:
  "segmentDistance calculateDistance worker1 = earthRadius * (pi / 180000)"
  using calculateDistance_equator [of 0 "1 / 1000"]
  by (simp add: segmentDistance_def segment1 lngLat_def)

lemma steps1: "8 \<le> steps calculateDistance worker1" "steps calculateDistance worker1 \<le> 15"
proof -
  let ?x = "earthRadius * (pi / 180000) / 10"
  have lo: "7 < ?x" using pi_ge_two by (simp add: earthRadius_def)
  have hi: "?x \<le> 15" using pi_less_4 by (simp add: earthRadius_def)
  have s: "steps calculateDistance worker1 = \<lceil>?x\<rceil>"
    by (simp add: steps_def segmentDistance1 worker1_fields)
  from lo show "8 \<le> steps calculateDistance worker1" unfolding s by linarith
  from hi show "steps calculateDistance worker1 \<le> 15" unfolding s by (simp add: ceiling_le_iff)
qed

lemma steps1_nonzero: "steps calculateDistance worker1 \<noteq> 0"
  using steps1(1) by simp

lemma batteriesInRange_storeAt: "0 \<le> b \<Longrightarrow> b \<le> 100 \<Longrightarrow> batteriesInRange (storeAt b)"
  by (simp add: batteriesInRange_def storeAt_def storeIn_def store1_def drone1_def)

text \<open>The run on a battery of 10: the first reading is 9.9 and the run is over.\<close>

lemma process_low:
  "\<exists>s'. process calculateDistance ''m1'' (storeAt 10) = (Inr (Stopped LowBattery), s')
        \<and> positionUpdates (events s') = [(0, 99 / 10)]"
proof -
  let ?D = calculateDistance and ?s = "storeAt 10"
  have m: "missions ?s (missionId worker1) = Some (mission1\<lparr>status := ACTIVE\<rparr>)"
    and a: "status (mission1\<lparr>status := ACTIVE\<rparr>) = ACTIVE"
    and d: "drones ?s (droneId (mission worker1)) = Some (drone1\<lparr>battery := 10\<rparr>)"
    and b: "battery (drone1\<lparr>battery := 10\<rparr>) - batteryDrainRate < 10"
    and di: "droneId (mission1\<lparr>status := ACTIVE\<rparr>) = droneId (mission worker1)"
    by (simp_all add: storeAt_rows worker1_fields batteryDrainRate_def mission1_def)
  note low = iteration_low [OF m a d b di, where D = calculateDistance and step = 0]
  obtain s4 where it: "iteration ?D worker1 0 ?s = (Inr (Some LowBattery), s4)"
    and ev: "positionUpdates (events s4) = [(0, 99 / 10)]"
    using low by (simp add: storeAt_rows batteryDrainRate_def)
  have le: "int 0 \<le> steps ?D worker1" using steps1(1) by simp
  from segment_loop_step [OF le it]
  have sl: "segment_loop ?D worker1 0 ?s = (Inr (Some LowBattery), s4)" by simp
  obtain r2 s2 where mr: "markReached (missionId worker1) (currentWaypointIndex worker1 + 1) s4 = (r2, s2)"
    by (cases "markReached (missionId worker1) (currentWaypointIndex worker1 + 1) s4")
  have g: "currentWaypointIndex worker1 < length (wpts worker1) - 1"
    by (simp add: worker1_fields)
  from simulation_loop_segment [OF g m a sl mr]
  have "simulation_loop ?D worker1 ?s = (Inr (Some LowBattery), s4)" by simp
  then have "process ?D ''m1'' ?s = (Inr (Stopped LowBattery), s4)"
    by (simp add: process_def simulate_def startWorker_storeAt)
  with ev show ?thesis by blast
qed

text \<open>
  The runs on a segment without steps.  On a battery of 10 the one reading is 9.9, the
  mission is aborted for low battery and the processor returns; on a full battery the
  position (NaN) and the battery (99.9) are written and announced, the distance
  computation throws, and the catch block aborts the mission.
\<close>

lemma startWorker_storeStill: "startWorker ''m1'' (storeStill b) = Inr workerStill"
  by (simp add: startWorker_def getMissionById_def storeStill_def storeAt_def storeIn_def
      store1_def mission1_def workerStill_def worker1_def)

lemma storeStill_rows:
  "missions (storeStill b) ''m1'' = Some (mission1\<lparr>status := ACTIVE\<rparr>)"
  "drones (storeStill b) ''d1'' = Some (drone1\<lparr>battery := b\<rparr>)"
  "events (storeStill b) = []" "now (storeStill b) = 0"
  by (simp_all add: storeStill_def storeAt_def storeIn_def store1_def)

lemma workerStill_fields:
  "missionId workerStill = ''m1''" "droneId (mission workerStill) = ''d1''"
  "speed (mission workerStill) = 10" "wpts workerStill = [waypointA, waypointA]"
  "currentWaypointIndex workerStill = 0"
  by (simp_all add: workerStill_def worker1_def mission1_def)

lemma steps_still: "steps calculateDistance workerStill = 0"
proof -
  have "calculateDistance (0, 0) (0, 0) = 0"
    using calculateDistance_equator [of 0 0] by simp
  then show ?thesis
    by (simp add: steps_def segmentDistance_def segmentFrom_def segmentTo_def workerStill_fields
        position3_def waypointA_def lngLat_def)
qed

lemma process_still_low:
  "\<exists>s' m. process calculateDistance ''m1'' (storeStill 10) = (Inr (Stopped LowBattery), s')
        \<and> positionUpdates (events s') = [(0, 99 / 10)]
        \<and> missions s' ''m1'' = Some m \<and> status m = ABORTED"
proof -
  let ?D = calculateDistance and ?s = "storeStill 10"
  have m: "missions ?s (missionId workerStill) = Some (mission1\<lparr>status := ACTIVE\<rparr>)"
    and a: "status (mission1\<lparr>status := ACTIVE\<rparr>) = ACTIVE"
    and d: "drones ?s (droneId (mission workerStill)) = Some (drone1\<lparr>battery := 10\<rparr>)"
    and b: "battery (drone1\<lparr>battery := 10\<rparr>) - batteryDrainRate < 10"
    and di: "droneId (mission1\<lparr>status := ACTIVE\<rparr>) = droneId (mission workerStill)"
    by (simp_all add: storeStill_rows workerStill_fields batteryDrainRate_def mission1_def)
  note low = iteration_low [OF m a d b di, where D = calculateDistance and step = 0]
  obtain s4 where it: "iteration ?D workerStill 0 ?s = (Inr (Some LowBattery), s4)"
    and ev: "positionUpdates (events s4) = [(0, 99 / 10)]"
    and ms: "missions s4 ''m1'' = Some (mission1\<lparr>status := ABORTED, endTime := Some 0\<rparr>)"
    using low by (simp add: storeStill_rows workerStill_fields batteryDrainRate_def)
  have le: "int 0 \<le> steps ?D workerStill" by (simp add: steps_still)
  from segment_loop_step [OF le it]
  have sl: "segment_loop ?D workerStill 0 ?s = (Inr (Some LowBattery), s4)" by simp
  obtain r2 s2 where mr: "markReached (missionId workerStill) (currentWaypointIndex workerStill + 1) s4 = (r2, s2)"
    by (cases "markReached (missionId workerStill) (currentWaypointIndex workerStill + 1) s4")
  have g: "currentWaypointIndex workerStill < length (wpts workerStill) - 1"
    by (simp add: workerStill_fields)
  from simulation_loop_segment [OF g m a sl mr]
  have "simulation_loop ?D workerStill ?s = (Inr (Some LowBattery), s4)" by simp
  then have "process ?D ''m1'' ?s = (Inr (Stopped LowBattery), s4)"
    by (simp add: process_def simulate_def startWorker_storeStill)
  with ev ms show ?thesis by simp
qed

lemma process_still_full:
  "\<exists>s' m d. process calculateDistance ''m1'' (storeStill 100)
                 = (Inl CoordinatesMustContainNumbers, s')
        \<and> positionUpdates (events s') = [(0, 999 / 10)]
        \<and> missions s' ''m1'' = Some m \<and> status m = ABORTED
        \<and> drones s' ''d1'' = Some d \<and> battery d = 999 / 10
        \<and> dlongitude d = Some NotANumber"
proof -
  let ?D = calculateDistance and ?s = "storeStill 100"
  have m: "missions ?s (missionId workerStill) = Some (mission1\<lparr>status := ACTIVE\<rparr>)"
    and a: "status (mission1\<lparr>status := ACTIVE\<rparr>) = ACTIVE"
    and d: "drones ?s (droneId (mission workerStill)) = Some (drone1\<lparr>battery := 100\<rparr>)"
    and b: "10 \<le> battery (drone1\<lparr>battery := 100\<rparr>) - batteryDrainRate"
    by (simp_all add: storeStill_rows workerStill_fields batteryDrainRate_def mission1_def)
  note und = iteration_undefined [OF m a steps_still d b, of 0]
  obtain s1 where it: "iteration ?D workerStill 0 ?s = (Inl CoordinatesMustContainNumbers, s1)"
    and ev: "positionUpdates (events s1) = [(0, 999 / 10)]"
    and ms: "missions s1 ''m1'' = Some (mission1\<lparr>status := ACTIVE\<rparr>)"
    and ds: "drones s1 ''d1'' = Some (drone1\<lparr>dlongitude := Some NotANumber,
               dlatitude := Some NotANumber, daltitude := Some NotANumber,
               battery := 999 / 10\<rparr>)"
    using und by (simp add: storeStill_rows workerStill_fields batteryDrainRate_def drone1_def)
  have le: "int 0 \<le> steps ?D workerStill" by (simp add: steps_still)
  from segment_loop_step [OF le it]
  have sl: "segment_loop ?D workerStill 0 ?s = (Inl CoordinatesMustContainNumbers, s1)" by simp
  obtain r2 s2 where mr: "markReached (missionId workerStill) (currentWaypointIndex workerStill + 1) s1 = (r2, s2)"
    by (cases "markReached (missionId workerStill) (currentWaypointIndex workerStill + 1) s1")
  have g: "currentWaypointIndex workerStill < length (wpts workerStill) - 1"
    by (simp add: workerStill_fields)
  from simulation_loop_segment [OF g m a sl mr]
  have "simulation_loop ?D workerStill ?s = (Inl CoordinatesMustContainNumbers, s1)" by simp
  then have sim: "simulate ?D ''m1'' ?s = (Inl CoordinatesMustContainNumbers, s1)"
    by (simp add: simulate_def startWorker_storeStill)
  have dm: "droneId (mission1\<lparr>status := ACTIVE\<rparr>) = ''d1''" by (simp add: mission1_def)
  obtain m' s' where ab: "abortMission ''m1'' s1 = (Inr m', s')"
    and r: "missions s' ''m1'' = Some m'" "status m' = ABORTED"
       "droneStatusOf s' (droneId (mission1\<lparr>status := ACTIVE\<rparr>)) = Some AVAILABLE"
    using abortMission_succeeds [OF ms a [THEN ssubst, of "\<lambda>x. x \<noteq> COMPLETED"]
        a [THEN ssubst, of "\<lambda>x. x \<noteq> ABORTED"] ds [folded dm]] by auto
  from abortMission_frame [OF ab] ev obtain evs where
    e': "events s' = events s1 @ evs" "positionUpdates evs = []" by blast
  have pr: "process ?D ''m1'' ?s = (Inl CoordinatesMustContainNumbers, s')"
    by (simp add: process_def sim ab)
  have d': "\<exists>d. drones s' ''d1'' = Some d \<and> battery d = 999 / 10 \<and> dlongitude d = Some NotANumber"
    using ab ms ds dm
    by (cases "''m1''" s1 rule: abortMission_cases) auto
  from pr e' ev r(1,2) d' show ?thesis by (auto simp: positionUpdates_append)
qed

theorem low_battery_ends_run_example:
  "batteriesInRange (storeAt 10)
   \<and> (\<exists>m. missions (storeAt 10) ''m1'' = Some m \<and> 0 < speed m)
   \<and> fst (process calculateDistance ''m1'' (storeAt 10)) = Inr (Stopped LowBattery)
   \<and> positionUpdates (events (snd (process calculateDistance ''m1'' (storeAt 10)))) = [(0, 99 / 10)]
   \<and> now (snd (process calculateDistance ''m1'' (storeAt 10))) = 0
   \<and> (\<exists>m. missions (snd (process calculateDistance ''m1'' (storeAt 10))) ''m1'' = Some m
          \<and> status m = ABORTED \<and> endTime m = Some 0)"
proof -
  have inv: "batteriesInRange (storeAt 10)" by (rule batteriesInRange_storeAt) simp_all
  have sp: "\<forall>m. missions (storeAt 10) ''m1'' = Some m \<longrightarrow> 0 < speed m"
    by (simp add: storeAt_rows mission1_def)
  from process_low obtain s' where
    run: "process calculateDistance ''m1'' (storeAt 10) = (Inr (Stopped LowBattery), s')"
    and ev: "positionUpdates (events s') = [(0, 99 / 10)]" by blast
  from low_battery_ends_run [OF inv sp run] obtain evs where
    e: "events s' = events (storeAt 10) @ evs"
    and l: "positionUpdates evs \<noteq> [] \<and> snd (last (positionUpdates evs)) < 10 \<longrightarrow>
                 Inr (Stopped LowBattery) = (Inr (Stopped LowBattery) :: Error + Outcome)
                 \<and> now s' = fst (last (positionUpdates evs))
                 \<and> (\<exists>m. missions s' ''m1'' = Some m \<and> status m = ABORTED
                        \<and> endTime m = Some (fst (last (positionUpdates evs))))"
    by blast
  from e ev have "positionUpdates evs = [(0, 99 / 10)]" by (simp add: storeAt_rows)
  with l have "now s' = 0 \<and> (\<exists>m. missions s' ''m1'' = Some m \<and> status m = ABORTED
                        \<and> endTime m = Some 0)" by simp
  moreover have "\<exists>m. missions (storeAt 10) ''m1'' = Some m \<and> 0 < speed m"
    by (simp add: storeAt_rows mission1_def)
  ultimately show ?thesis using inv run ev by simp
qed

text \<open>The run on a full battery: it completes.\<close>

lemma process_full:
  "\<exists>s'. process calculateDistance ''m1'' (storeAt 100) = (Inr Completed, s')"
proof -
  let ?D = calculateDistance and ?s = "storeAt 100"
  let ?cm = "mission1\<lparr>status := ACTIVE\<rparr>"
  have m: "missions ?s (missionId worker1) = Some ?cm"
    and a: "status ?cm = ACTIVE"
    and d: "drones ?s (droneId (mission worker1)) = Some (drone1\<lparr>battery := 100\<rparr>)"
    by (simp_all add: storeAt_rows worker1_fields)
  define n where "n = nat (steps ?D worker1 + 1 - int 0)"
  have n16: "real n \<le> 16" using steps1 by (simp add: n_def)
  have b: "10 \<le> battery (drone1\<lparr>battery := 100\<rparr>) - batteryDrainRate * real n"
    using n16 by (simp add: batteryDrainRate_def)
  from segment_loop_completes [OF m a steps1_nonzero d n_def b]
  obtain s1 cm' cd' where sl: "segment_loop ?D worker1 0 ?s = (Inr None, s1)"
    and m1: "missions s1 (missionId worker1) = Some cm'" "droneId cm' = droneId ?cm"
    and d1: "drones s1 (droneId (mission worker1)) = Some cd'"
    by blast
  from segment_loop_frame [OF sl] have w1: "waypoints s1 = waypoints ?s" by simp
  have g: "currentWaypointIndex worker1 < length (wpts worker1) - 1"
    by (simp add: worker1_fields)
  obtain r2 s2 where mr: "markReached (missionId worker1) (currentWaypointIndex worker1 + 1) s1 = (r2, s2)"
    by (cases "markReached (missionId worker1) (currentWaypointIndex worker1 + 1) s1")
  have r2: "r2 = Inr ()" and f2: "missions s2 = missions s1" "drones s2 = drones s1"
    using mr w1
    by (cases "missionId worker1" "currentWaypointIndex worker1 + 1" s1 rule: markReached_cases;
        simp add: worker1_fields storeAt_rows)+
  have ex: "\<not> currentWaypointIndex (nextWorker ?D worker1) < length (wpts (nextWorker ?D worker1)) - 1"
    by (simp add: nextWorker_def worker1_fields)
  from simulation_loop_segment [OF g m a sl mr] r2 simulation_loop_exit [OF ex]
  have sim: "simulation_loop ?D worker1 ?s = (Inr None, s2)" by simp
  have m2: "missions s2 ''m1'' = Some cm'" and d2: "drones s2 (droneId cm') = Some cd'"
    using m1 d1 f2 by (simp_all add: worker1_fields mission1_def)
  have "\<exists>m' s3. completeMission ''m1'' s2 = (Inr m', s3)"
    using m2 d2 by (simp add: completeMission_def getMissionById_def updateDrone_def Let_def)
  then obtain m' s3 where c: "completeMission ''m1'' s2 = (Inr m', s3)" by blast
  from sim c have "process ?D ''m1'' ?s = (Inr Completed, s3)"
    by (simp add: process_def simulate_def startWorker_storeAt)
  then show ?thesis by blast
qed

theorem completed_run_first_waypoint_unreached:
  "missions (storeAt 100) ''m1'' = Some (mission1\<lparr>status := ACTIVE\<rparr>)
   \<and> currentWaypoint (mission1\<lparr>status := ACTIVE\<rparr>) = 0
   \<and> fst (process calculateDistance ''m1'' (storeAt 100)) = Inr Completed
   \<and> waypointWrites (snd (process calculateDistance ''m1'' (storeAt 100))) = [(''m1'', 1)]
   \<and> reached (waypoints (snd (process calculateDistance ''m1'' (storeAt 100))) ''m1'' ! 1)
   \<and> \<not> reached (waypoints (snd (process calculateDistance ''m1'' (storeAt 100))) ''m1'' ! 0)"
proof -
  have m: "missions (storeAt 100) ''m1'' = Some (mission1\<lparr>status := ACTIVE\<rparr>)"
    and a: "status (mission1\<lparr>status := ACTIVE\<rparr>) = ACTIVE"
    by (simp_all add: storeAt_rows)
  have c0: "currentWaypoint (mission1\<lparr>status := ACTIVE\<rparr>) = 0" by (simp add: mission1_def)
  from process_full obtain s' where
    run: "process calculateDistance ''m1'' (storeAt 100) = (Inr Completed, s')" by blast
  from completed_run_marks_waypoints_after_cursor [OF m a run]
  have "waypointWrites s' = [(''m1'', 1)] \<and> reached (waypoints s' ''m1'' ! 1)
        \<and> waypoints s' ''m1'' ! 0 = waypointA"
    by (simp add: c0 storeAt_rows upt_conv_Cons)
  with m c0 run show ?thesis by (simp add: waypointA_def)
qed

lemma progress_after_first_step:
  "0 < segmentProgress calculateDistance worker1 (stepPosition calculateDistance worker1 1)"
proof -
  let ?S = "real_of_int (steps calculateDistance worker1)"
  have S: "8 \<le> ?S" using steps1(1) by simp
  let ?x = "1 / 1000 * (1 / ?S)"
  have x0: "0 < ?x" using S by simp
  have x1: "?x \<le> 1 / 1000" using S by (simp add: field_simps)
  have pos: "lngLat (stepPosition calculateDistance worker1 1) = (?x, 0)"
    by (simp add: stepPosition_def interpolatePosition_def segment1 lngLat_def)
  have to: "lngLat (segmentTo worker1) = (1 / 1000, 0)" by (simp add: segment1 lngLat_def)
  have rest: "calculateDistance (?x, 0) (1 / 1000, 0) = earthRadius * ((1 / 1000 - ?x) * pi / 180)"
  proof (rule calculateDistance_equator [OF x1])
    from x0 show "1 / 1000 - ?x \<le> 180" by linarith
  qed
  have R: "0 < earthRadius * pi" by (simp add: earthRadius_def)
  have "earthRadius * ((1 / 1000 - ?x) * pi / 180) < earthRadius * (pi / 180000)"
  proof -
    have "earthRadius * ((1 / 1000 - ?x) * pi / 180) = (earthRadius * pi) * ((1 / 1000 - ?x) / 180)"
      by simp
    also have "\<dots> < (earthRadius * pi) * ((1 / 1000) / 180)"
      using R x0 by (intro mult_strict_left_mono) simp_all
    also have "\<dots> = earthRadius * (pi / 180000)" by simp
    finally show ?thesis .
  qed
  moreover have "0 < earthRadius * (pi / 180000)" using R by simp
  ultimately have "earthRadius * ((1 / 1000 - ?x) * pi / 180) / (earthRadius * (pi / 180000)) < 1"
    by (simp only: divide_less_eq_1_pos)
  then show ?thesis
    by (simp only: segmentProgress_def pos to rest segmentDistance1 diff_gt_0_iff_gt)
qed

theorem resume_restarts_segment_example:
  "\<exists>s1 m2 s2 m3 s3 w' s4 m4.
       iteration calculateDistance worker1 1 (storeAt 100) = (Inr None, s1)
     \<and> pauseMission ''m1'' s1 = (Inr m2, s2)
     \<and> iteration calculateDistance worker1 (Suc 1) s2 = (Inr (Some PausedDuringSegment), s2)
     \<and> resumeMission ''m1'' s2 = (Inr m3, s3)
     \<and> startWorker ''m1'' s3 = Inr w'
     \<and> currentWaypointIndex w' = 0
     \<and> totalDistanceCovered w' = distanceCovered m3
     \<and> 0 < distanceCovered m3
     \<and> iteration calculateDistance w' 0 s3 = (Inr None, s4)
     \<and> missions s4 ''m1'' = Some m4
     \<and> progress m4 = 0
     \<and> progress m4 < progress m3"
proof -
  let ?D = calculateDistance
  let ?cm = "mission1\<lparr>status := ACTIVE\<rparr>" and ?cd = "drone1\<lparr>battery := 100\<rparr>"
  have m: "missions (storeAt 100) (missionId worker1) = Some ?cm"
    and a: "status ?cm = ACTIVE"
    and sp: "speed ?cm = speed (mission worker1)"
    and di: "droneId ?cm = droneId (mission worker1)"
    and wp: "wpts worker1 = waypoints (storeAt 100) (missionId worker1)"
    and cur: "currentWaypointIndex worker1 + 1 < length (wpts worker1)"
    and d: "drones (storeAt 100) (droneId (mission worker1)) = Some ?cd"
    and b: "10 \<le> battery ?cd - 2 * batteryDrainRate"
    by (simp_all add: storeAt_rows worker1_fields mission1_def batteryDrainRate_def)
  have pos: "0 < segmentDistance ?D worker1
               * segmentProgress ?D worker1 (stepPosition ?D worker1 1)"
    using progress_after_first_step by (simp add: segmentDistance1 earthRadius_def)
  from resume_restarts_segment [OF m a sp di wp cur steps1_nonzero d b progress_after_first_step]
  obtain s1 m2 s2 m3 s3 w' s4 m4 where
        1: "iteration ?D worker1 1 (storeAt 100) = (Inr None, s1)"
    and 2: "pauseMission (missionId worker1) s1 = (Inr m2, s2)"
    and 3: "iteration ?D worker1 (Suc 1) s2 = (Inr (Some PausedDuringSegment), s2)"
    and 4: "resumeMission (missionId worker1) s2 = (Inr m3, s3)"
    and 5: "distanceCovered m3 = coveredDistance ?D worker1 (stepPosition ?D worker1 1)"
    and 6: "startWorker (missionId worker1) s3 = Inr w'"
    and 7: "currentWaypointIndex w' = currentWaypointIndex worker1"
    and 8: "totalDistanceCovered w' = totalDistanceCovered worker1
          + segmentDistance ?D worker1 * segmentProgress ?D worker1 (stepPosition ?D worker1 1)"
    and 9: "iteration ?D w' 0 s3 = (Inr None, s4)"
    and 10: "missions s4 (missionId worker1) = Some m4"
    and 11: "progress m4 = real (currentWaypointIndex worker1) / real (length (wpts worker1)) * 100"
    and 12: "progress m4 < progress m3"
    by blast
  from 5 have c: "distanceCovered m3 = segmentDistance ?D worker1
        * segmentProgress ?D worker1 (stepPosition ?D worker1 1)"
    by (simp add: coveredDistance_def worker1_fields)
  from 8 c have t: "totalDistanceCovered w' = distanceCovered m3" by (simp add: worker1_fields)
  from c pos have p: "0 < distanceCovered m3" by simp
  from 11 have z: "progress m4 = 0" by (simp add: worker1_fields)
  from 7 have i: "currentWaypointIndex w' = 0" by (simp add: worker1_fields)
  from 1 2 3 4 6 10 have
    "iteration ?D worker1 1 (storeAt 100) = (Inr None, s1)
     \<and> pauseMission ''m1'' s1 = (Inr m2, s2)
     \<and> iteration ?D worker1 (Suc 1) s2 = (Inr (Some PausedDuringSegment), s2)
     \<and> resumeMission ''m1'' s2 = (Inr m3, s3)
     \<and> startWorker ''m1'' s3 = Inr w'
     \<and> missions s4 ''m1'' = Some m4"
    by (simp add: worker1_fields)
  with i t p 9 z 12 show ?thesis by blast
qed

theorem low_battery_charging_while_active_example:
  "dstatus (drone1\<lparr>battery := 50\<rparr>) = IN_MISSION
   \<and> (\<exists>s1. updateDroneBattery ''d1'' 15 (storeAt 50) = (Inr (), s1)
            \<and> droneStatusOf s1 ''d1'' = Some CHARGING)
   \<and> (\<exists>s' m'. iteration calculateDistance worker1 3 (storeAt (151 / 10)) = (Inr None, s')
            \<and> droneStatusOf s' ''d1'' = Some CHARGING
            \<and> missions s' ''m1'' = Some m' \<and> status m' = ACTIVE)"
proof -
  have d0: "drones (storeAt 50) ''d1'' = Some (drone1\<lparr>battery := 50\<rparr>)"
    and b0: "(15::real) < 20"
    and m: "missions (storeAt (151 / 10)) (missionId worker1) = Some (mission1\<lparr>status := ACTIVE\<rparr>)"
    and a: "status (mission1\<lparr>status := ACTIVE\<rparr>) = ACTIVE"
    and d: "drones (storeAt (151 / 10)) (droneId (mission worker1))
              = Some (drone1\<lparr>battery := 151 / 10\<rparr>)"
    and lo: "10 \<le> battery (drone1\<lparr>battery := 151 / 10\<rparr>) - batteryDrainRate"
    and hi: "battery (drone1\<lparr>battery := 151 / 10\<rparr>) - batteryDrainRate < 20"
    by (simp_all add: storeAt_rows worker1_fields batteryDrainRate_def)
  from low_battery_charging_while_active [OF d0 b0 m a steps1_nonzero d lo hi, of 3]
  show ?thesis by (simp add: worker1_fields drone1_def)
qed

section \<open>Verification: path planner\<close>

lemma sweepLine_shape:
  "even (length (sweepLine g lat dir)) \<and> (\<forall>w\<in>set (sweepLine g lat dir). snd (snd w) = flightAltitude g)"
  by (simp add: sweepLine_def Let_def)

lemma sweepLine_length:
  "length (sweepLine g lat dir) =
     (if 2 \<le> length (intersect g ((if dir = 1 then (minLng g, lat) else (maxLng g, lat)),
                                   (if dir = 1 then (maxLng g, lat) else (minLng g, lat))) (ring g))
      then 2 else 0)"
  by (simp add: sweepLine_def Let_def)

lemma grid_sweep_diverges:
  assumes "grid_sweep g lat dir acc = Some ws"
  shows "\<not> (spacingDegrees g \<le> 0 \<and> lat \<le> maxLat g)"
proof (rule grid_sweep.raw_induct
    [where P = "\<lambda>g lat dir acc ws. \<not> (spacingDegrees g \<le> 0 \<and> lat \<le> maxLat g)", OF _ assms])
  fix f g currentLat direction path ga
  assume IH: "\<And>g' lat' dir' acc' y. f g' lat' dir' acc' = Some y \<Longrightarrow>
                 \<not> (spacingDegrees g' \<le> 0 \<and> lat' \<le> maxLat g')"
    and eq: "(if currentLat \<le> maxLat g
              then f g (currentLat + spacingDegrees g) (direction * (- 1))
                     (path @ sweepLine g currentLat direction)
              else Some path) = Some ga"
  show "\<not> (spacingDegrees g \<le> 0 \<and> currentLat \<le> maxLat g)"
  proof
    assume h: "spacingDegrees g \<le> 0 \<and> currentLat \<le> maxLat g"
    then have le: "currentLat + spacingDegrees g \<le> maxLat g" by simp
    from h eq have "f g (currentLat + spacingDegrees g) (direction * (- 1))
                     (path @ sweepLine g currentLat direction) = Some ga" by simp
    from IH [OF this] h le show False by simp
  qed
qed

lemma grid_sweep_never_returns:
  "spacingDegrees g \<le> 0 \<Longrightarrow> lat \<le> maxLat g \<Longrightarrow> grid_sweep g lat dir acc = None"
  using grid_sweep_diverges [of g lat dir acc] by (cases "grid_sweep g lat dir acc") auto

lemma fold_min_le: "fold min xs (a::real) \<le> a"
  by (induction xs arbitrary: a) (auto intro: order_trans [OF _ min.cobounded2])

lemma fold_max_ge: "(a::real) \<le> fold max xs a"
  by (induction xs arbitrary: a) (auto intro: order_trans [OF max.cobounded2])

lemma bbox_lat_ordered:
  "bbox coords = (mnLng, mnLat, mxLng, mxLat) \<Longrightarrow> mnLat \<le> mxLat"
  using fold_min_le [of "map snd (tl coords)" "snd (hd coords)"]
    fold_max_ge [of "snd (hd coords)" "map snd (tl coords)"]
  by (auto simp: bbox_def)

lemma generateGridPattern_angle:
  "generateGridPattern isect polygon alt spacing angle
     = generateGridPattern isect polygon alt spacing 0"
  by (simp add: generateGridPattern_def)

text \<open>
  C7.  The claim: for a convex polygon of positive area and a spacing smaller than its
  extent the grid generator returns a non-empty sequence of even length.  The sweep
  advances by the spacing and stops when it has passed the top of the bounding box; with
  a spacing of zero (an overlap of 100 percent) or below, it never advances, whatever
  the polygon and the intersection routine: the generator does not return.
\<close>

theorem grid_never_returns_without_positive_spacing:
  assumes "spacing \<le> 0" and "polygon \<noteq> []" and "4 \<le> length (closeRing polygon)"
  shows "generateGridPattern isect polygon alt spacing angle = None"
proof -
  obtain a b c d where bb: "bbox (closeRing polygon) = (a, b, c, d)"
    by (cases "bbox (closeRing polygon)") auto
  let ?g = "\<lparr>intersect = isect, ring = closeRing polygon, flightAltitude = alt,
             minLng = a, maxLng = c, maxLat = d, spacingDegrees = spacing / 111320\<rparr>"
  have sd: "spacingDegrees ?g \<le> 0" using assms(1) by (simp add: divide_nonpos_pos)
  have le: "b \<le> maxLat ?g" using bbox_lat_ordered [OF bb] by simp
  from grid_sweep_never_returns [OF sd le, of 1 "[]"] assms(2,3) bb
  show ?thesis by (simp add: generateGridPattern_def Let_def)
qed

lemma unitSquare_ring:
  "unitSquare \<noteq> []" "closeRing unitSquare = [(0, 0), (0, 1), (1, 1), (1, 0), (0, 0)]"
  "4 \<le> length (closeRing unitSquare)"
  by (simp_all add: unitSquare_def closeRing_def)

theorem grid_never_returns_at_zero_spacing:
  "(0::real) \<le> 0 \<and> unitSquare \<noteq> [] \<and> 4 \<le> length (closeRing unitSquare)
   \<and> generateGridPattern segmentIntersections unitSquare 50 0 0 = None"
  using grid_never_returns_without_positive_spacing [of 0 unitSquare segmentIntersections 50 0] unitSquare_ring(1,3)
  by simp

lemma crosshatch_twoIdenticalGrids:
  "generateCrosshatchPattern isect polygon alt spacing
     = twoIdenticalGrids isect polygon alt spacing"
  unfolding generateCrosshatchPattern_def twoIdenticalGrids_def
    generateGridPattern_angle [of isect polygon alt spacing 90]
  by (simp split: option.splits sum.splits)

lemma grid_without_positive_spacing:
  assumes "spacing \<le> 0" and "polygon \<noteq> []" and "4 \<le> length (closeRing polygon)"
  shows "generateGridPattern isect polygon alt spacing angle = None"
proof -
  obtain a b c d where bb: "bbox (closeRing polygon) = (a, b, c, d)"
    by (cases "bbox (closeRing polygon)") auto
  let ?g = "\<lparr>intersect = isect, ring = closeRing polygon, flightAltitude = alt,
             minLng = a, maxLng = c, maxLat = d, spacingDegrees = spacing / 111320\<rparr>"
  have sd: "spacingDegrees ?g \<le> 0" using assms(1) by (simp add: divide_nonpos_pos)
  have le: "b \<le> maxLat ?g" using bbox_lat_ordered [OF bb] by simp
  from grid_sweep_never_returns [OF sd le, of 1 "[]"] assms(2,3) bb
  show ?thesis by (simp add: generateGridPattern_def Let_def)
qed

text \<open>
  C3.  The claim: for every polygon, altitude and spacing the crosshatch generator returns
  the concatenation of two grid sequences, which are identical.  The generator is the
  grid generator run twice, and the second run, asked for an angle of 90 degrees, is the
  first one again, for every intersection routine: when the grid generator returns a
  sequence, the crosshatch generator returns that sequence followed by itself, and when
  it throws, so does the crosshatch generator.  But it does not return for every
  spacing: with a spacing of zero (an overlap of 100 percent) or below the sweep of the
  grid never ends, and the crosshatch generator returns nothing.
\<close>

theorem crosshatch_is_grid_twice:
  "generateCrosshatchPattern isect polygon alt spacing
     = twoIdenticalGrids isect polygon alt spacing
   \<and> generateGridPattern isect polygon alt spacing 90
       = generateGridPattern isect polygon alt spacing 0
   \<and> (\<forall>grid. generateGridPattern isect polygon alt spacing 0 = Some (Inr grid)
          \<longrightarrow> generateCrosshatchPattern isect polygon alt spacing = Some (Inr (grid @ grid)))
   \<and> (spacing \<le> 0 \<and> polygon \<noteq> [] \<and> 4 \<le> length (closeRing polygon)
        \<longrightarrow> generateCrosshatchPattern isect polygon alt spacing = None)"
proof (intro conjI allI impI)
  show "generateCrosshatchPattern isect polygon alt spacing
     = twoIdenticalGrids isect polygon alt spacing"
    by (rule crosshatch_twoIdenticalGrids)
  show "generateGridPattern isect polygon alt spacing 90
       = generateGridPattern isect polygon alt spacing 0"
    by (rule generateGridPattern_angle)
next
  fix grid
  assume "generateGridPattern isect polygon alt spacing 0 = Some (Inr grid)"
  then show "generateCrosshatchPattern isect polygon alt spacing = Some (Inr (grid @ grid))"
    by (simp add: crosshatch_twoIdenticalGrids twoIdenticalGrids_def)
next
  assume "spacing \<le> 0 \<and> polygon \<noteq> [] \<and> 4 \<le> length (closeRing polygon)"
  then have "generateGridPattern isect polygon alt spacing 0 = None"
    by (intro grid_without_positive_spacing) simp_all
  then show "generateCrosshatchPattern isect polygon alt spacing = None"
    by (simp add: crosshatch_twoIdenticalGrids twoIdenticalGrids_def)
qed

lemma bbox_unitSquare: "bbox (closeRing unitSquare) = (0, 0, 1, 1)"
  by (simp add: bbox_def unitSquare_ring)

text \<open>
  The sweep over the square in steps of half a degree takes the latitudes 0, 1 / 2 and 1
  and ends at 3 / 2; these sums are exact in the double arithmetic of the source, and so
  is the quotient of the spacing, 55660 / 111320.
\<close>

lemma square_grid:
  "grid_sweep (squareSweep isect) 0 1 [] =
     Some (sweepLine (squareSweep isect) 0 1 @ sweepLine (squareSweep isect) (1 / 2) (- 1)
             @ sweepLine (squareSweep isect) 1 1)"
proof -
  let ?g = "squareSweep isect"
  have 4: "grid_sweep ?g (3 / 2) (- 1) ws = Some ws" for ws
    by (subst grid_sweep.simps) (simp add: squareSweep_def)
  have 3: "grid_sweep ?g 1 1 ws = Some (ws @ sweepLine ?g 1 1)" for ws
    using 4 [of "ws @ sweepLine ?g 1 1"]
    by (subst grid_sweep.simps) (simp add: squareSweep_def)
  have 2: "grid_sweep ?g (1 / 2) (- 1) ws
             = Some (ws @ sweepLine ?g (1 / 2) (- 1) @ sweepLine ?g 1 1)" for ws
    using 3 [of "ws @ sweepLine ?g (1 / 2) (- 1)"]
    by (subst grid_sweep.simps) (simp add: squareSweep_def)
  show ?thesis
    using 2 [of "sweepLine ?g 0 1"]
    by (subst grid_sweep.simps) (simp add: squareSweep_def)
qed

lemma square_generateGridPattern:
  "generateGridPattern isect unitSquare 50 55660 0 =
     Some (Inr (sweepLine (squareSweep isect) 0 1 @ sweepLine (squareSweep isect) (1 / 2) (- 1)
                  @ sweepLine (squareSweep isect) 1 1))"
  using square_grid [of isect] unitSquare_ring(1,3)
  by (simp add: generateGridPattern_def bbox_unitSquare squareSweep_def Let_def not_less)

text \<open>
  On the square: with a spacing of zero the crosshatch generator does not return, and
  with a spacing of 55660 metres it returns the three sweep lines of the grid twice over,
  whatever the intersection routine makes of each line.
\<close>

theorem crosshatch_unit_square:
  "(\<forall>isect. generateCrosshatchPattern isect unitSquare 50 0 = None)
   \<and> (\<forall>isect. \<exists>grid. generateGridPattern isect unitSquare 50 55660 0 = Some (Inr grid)
          \<and> generateCrosshatchPattern isect unitSquare 50 55660 = Some (Inr (grid @ grid)))"
proof (intro conjI allI)
  fix isect :: lineIntersect
  have z: "(0::real) \<le> 0 \<and> unitSquare \<noteq> [] \<and> 4 \<le> length (closeRing unitSquare)"
    using unitSquare_ring(1,3) by simp
  from crosshatch_is_grid_twice [of isect unitSquare 50 0] z
  show "generateCrosshatchPattern isect unitSquare 50 0 = None" by blast
  from crosshatch_is_grid_twice [of isect unitSquare 50 55660]
    square_generateGridPattern [of isect]
  show "\<exists>grid. generateGridPattern isect unitSquare 50 55660 0 = Some (Inr grid)
          \<and> generateCrosshatchPattern isect unitSquare 50 55660 = Some (Inr (grid @ grid))"
    by blast
qed

text \<open>
  That the generators return for every positive spacing is not among these statements: in
  the double arithmetic of the source a small positive step does not advance a latitude
  either.  One degree and \<open>2 ^ - 60\<close> of a degree make one degree.
\<close>

lemma small_step_is_lost: "Float64 1 0 + Float64 1 (- 60) = Float64 1 0"
  by code_simp

section \<open>Verification: interpolation\<close>

text \<open>
  A double written with some of its trailing zero bits is left as it is by the rounding,
  so that adding zero and multiplying by one are exact.
\<close>

lemma normalizeDouble_zero [simp]: "normalizeDouble 0 e = Float64 0 0"
  by (subst normalizeDouble.simps) simp

lemma normalizeDouble_odd: "odd m \<Longrightarrow> normalizeDouble m e = Float64 m e"
  by (subst normalizeDouble.simps) auto

lemma normalizeDouble_shift: "normalizeDouble (m * 2 ^ i) e = normalizeDouble m (e + int i)"
proof (induction i arbitrary: e)
  case 0
  show ?case by simp
next
  case (Suc i)
  show ?case
  proof (cases "m = 0")
    case True
    then show ?thesis by simp
  next
    case False
    then have "normalizeDouble (m * 2 ^ Suc i) e = normalizeDouble (m * 2 ^ i) (e + 1)"
      by (subst normalizeDouble.simps) simp
    with Suc [of "e + 1"] show ?thesis by (simp add: ac_simps)
  qed
qed

lemma bitlen_shift: "m \<noteq> 0 \<Longrightarrow> bitlen \<bar>m * 2 ^ j\<bar> = bitlen \<bar>m\<bar> + int j"
  using bitlen_pow2 [of "\<bar>m\<bar>" j] by (simp add: abs_mult)

lemma bitlen_le_53: "\<bar>m\<bar> < 2 ^ 53 \<Longrightarrow> bitlen \<bar>m\<bar> \<le> 53"
  by (simp add: bitlen_le_iff_power)

text \<open>A double, written with some of its trailing zero bits, is left as it is.\<close>

lemma roundDouble_exact:
  assumes b: "\<bar>m\<bar> < 2 ^ 53" and nz: "m \<noteq> 0"
    and lo: "- 1074 \<le> e + int j" and hi: "bitlen \<bar>m\<bar> + e + int j \<le> 1024"
  shows "roundDouble (m * 2 ^ j) e = normalizeDouble m (e + int j)"
proof -
  let ?M = "m * 2 ^ j"
  have Mnz: "?M \<noteq> 0" using nz by simp
  have bl: "bitlen \<bar>?M\<bar> = bitlen \<bar>m\<bar> + int j" by (rule bitlen_shift [OF nz])
  define k where "k = max (bitlen \<bar>?M\<bar> - 53) (- 1074 - e)"
  have kj: "k \<le> int j" using bitlen_le_53 [OF b] bl lo by (simp add: k_def)
  show ?thesis
  proof (cases "k \<le> 0")
    case True
    have "roundDouble ?M e = finiteDouble ?M e"
      using True by (simp add: roundDouble_def k_def [symmetric] Let_def)
    also have "\<dots> = normalizeDouble ?M e"
      using Mnz bl hi by (simp add: finiteDouble_def)
    also have "\<dots> = normalizeDouble m (e + int j)" by (rule normalizeDouble_shift)
    finally show ?thesis .
  next
    case kpos: False
    define i where "i = nat k"
    have ij: "i \<le> j" and ik: "int i = k" using kj kpos by (simp_all add: i_def)
    have split: "(2::int) ^ j = 2 ^ (j - i) * 2 ^ i" using ij by (simp flip: power_add)
    have abs': "\<bar>?M\<bar> = (\<bar>m\<bar> * 2 ^ (j - i)) * 2 ^ i"
      by (simp add: abs_mult split)
    have q: "\<bar>?M\<bar> div 2 ^ i = \<bar>m\<bar> * 2 ^ (j - i)"
      unfolding abs' by simp
    have r: "\<bar>?M\<bar> mod 2 ^ i = 0"
      unfolding abs' by simp
    have half: "(0::int) < 2 ^ nat (k - 1)" by simp
    have "roundDouble ?M e = finiteDouble (sgn ?M * (\<bar>m\<bar> * 2 ^ (j - i))) (e + k)"
      using kpos half q r
      by (simp add: roundDouble_def k_def [symmetric] i_def [symmetric] Let_def del: abs_mult)
    also have "sgn ?M * (\<bar>m\<bar> * 2 ^ (j - i)) = m * 2 ^ (j - i)"
      by (simp add: sgn_mult mult.assoc [symmetric] mult_sgn_abs)
    also have "finiteDouble (m * 2 ^ (j - i)) (e + k) = normalizeDouble (m * 2 ^ (j - i)) (e + k)"
    proof -
      have "bitlen \<bar>m * 2 ^ (j - i)\<bar> + (e + k) = bitlen \<bar>m\<bar> + e + int j"
        using bitlen_shift [OF nz, of "j - i"] ij ik by simp
      with hi nz show ?thesis by (simp add: finiteDouble_def)
    qed
    also have "\<dots> = normalizeDouble m (e + k + int (j - i))"
      by (rule normalizeDouble_shift)
    also have "e + k + int (j - i) = e + int j" using ij ik by simp
    finally show ?thesis .
  qed
qed

lemma roundDouble_zero [simp]: "roundDouble 0 e = Float64 0 0"
  by (simp add: roundDouble_def finiteDouble_def Let_def)

lemma isDoubleE:
  assumes "isDouble x"
  obtains (zero) "x = Float64 0 0"
  | (nonzero) m e where "x = Float64 m e" "m \<noteq> 0" "odd m" "\<bar>m\<bar> < 2 ^ 53" "- 1074 \<le> e"
      "bitlen \<bar>m\<bar> + e \<le> 1024"
  using assms by (cases x) (auto simp: isDouble_def split: if_splits)

lemma times_zero_float64: "isDouble x \<Longrightarrow> x * (0::float64) = 0"
  by (erule isDoubleE) (simp_all add: zero_float64_def)

lemma plus_zero_float64:
  assumes "isDouble x"
  shows "x + (0::float64) = x"
  using assms
proof (cases rule: isDoubleE)
  case zero
  then show ?thesis by (simp add: zero_float64_def)
next
  case (nonzero m e)
  have "x + 0 = roundDouble (m * 2 ^ nat (e - min e 0)) (min e 0)"
    by (simp add: nonzero(1) zero_float64_def Let_def)
  also have "\<dots> = normalizeDouble m (min e 0 + int (nat (e - min e 0)))"
    using nonzero by (intro roundDouble_exact) simp_all
  also have "min e 0 + int (nat (e - min e 0)) = e" by simp
  also have "normalizeDouble m e = Float64 m e" using nonzero(3) by (rule normalizeDouble_odd)
  finally show ?thesis by (simp add: nonzero(1))
qed

lemma times_one_finite:
  assumes "isDouble x"
  shows "x * (1::float64) = x"
  using assms
proof (cases rule: isDoubleE)
  case zero
  then show ?thesis by (simp add: one_float64_def)
next
  case (nonzero m e)
  have "x * 1 = roundDouble (m * 2 ^ 0) e"
    by (simp add: nonzero(1) one_float64_def)
  also have "\<dots> = normalizeDouble m (e + int 0)"
    using nonzero by (intro roundDouble_exact) simp_all
  also have "\<dots> = Float64 m e" using nonzero(3) by (simp add: normalizeDouble_odd)
  finally show ?thesis by (simp add: nonzero(1))
qed

lemma normalizeDouble_isDouble:
  assumes "m \<noteq> 0" and "\<bar>m\<bar> \<le> 2 ^ 53" and "- 1074 \<le> e" and "bitlen \<bar>m\<bar> + e \<le> 1024"
  shows "isDouble (normalizeDouble m e)"
  using assms
proof (induction m e rule: normalizeDouble.induct)
  case (1 m e)
  show ?case
  proof (cases "even m")
    case True
    then obtain n where n: "m = n * 2" by (auto elim!: evenE simp: mult.commute)
    with "1.prems"(1) have nz: "n \<noteq> 0" by simp
    have d: "m div 2 = n" using n by simp
    have "bitlen \<bar>m\<bar> = bitlen \<bar>n\<bar> + 1" using bitlen_shift [OF nz, of 1] n by simp
    with "1.prems" n have "\<bar>n\<bar> \<le> 2 ^ 53" "- 1074 \<le> e + 1" "bitlen \<bar>n\<bar> + (e + 1) \<le> 1024"
      by simp_all
    with "1.IH" [OF "1.prems"(1) True] d nz
    have "isDouble (normalizeDouble (m div 2) (e + 1))" by simp
    with "1.prems"(1) True show ?thesis by (subst normalizeDouble.simps) simp
  next
    case False
    then have "m \<noteq> 2 ^ 53" "m \<noteq> - (2 ^ 53)" by auto
    with "1.prems" have "\<bar>m\<bar> < 2 ^ 53" by linarith
    with "1.prems" False show ?thesis by (simp add: normalizeDouble_odd isDouble_def)
  qed
qed

text \<open>The rounded mantissa: at most \<open>2 ^ 53\<close>, on an exponent of \<open>- 1074\<close> or above.\<close>

lemma roundDouble_cases:
  obtains (exact) "bitlen \<bar>m\<bar> \<le> 53" "- 1074 \<le> e" "roundDouble m e = finiteDouble m e"
  | (rounded) k q where "0 < k" "k = max (bitlen \<bar>m\<bar> - 53) (- 1074 - e)"
      "0 \<le> q" "q \<le> 2 ^ 53" "roundDouble m e = finiteDouble (sgn m * q) (e + k)"
proof -
  define k where "k = max (bitlen \<bar>m\<bar> - 53) (- 1074 - e)"
  show ?thesis
  proof (cases "k \<le> 0")
    case True
    then have "bitlen \<bar>m\<bar> \<le> 53" "- 1074 \<le> e" by (simp_all add: k_def)
    moreover have "roundDouble m e = finiteDouble m e"
      using True by (simp add: roundDouble_def k_def [symmetric] Let_def)
    ultimately show ?thesis by (rule exact)
  next
    case False
    define i where "i = nat k"
    define q where "q = \<bar>m\<bar> div 2 ^ i"
    define q' where "q' = (if 2 ^ nat (k - 1) < \<bar>m\<bar> mod 2 ^ i
                             \<or> (\<bar>m\<bar> mod 2 ^ i = 2 ^ nat (k - 1) \<and> odd q) then q + 1 else q)"
    have "bitlen \<bar>m\<bar> - 53 \<le> k" by (simp add: k_def)
    with False have "bitlen \<bar>m\<bar> \<le> int (53 + i)" by (simp add: i_def)
    then have "\<bar>m\<bar> < 2 ^ (53 + i)" by (simp add: bitlen_le_iff_power del: of_nat_add)
    then have lt: "\<bar>m\<bar> < 2 ^ 53 * 2 ^ i" by (simp only: power_add)
    have "q * 2 ^ i \<le> q * 2 ^ i + \<bar>m\<bar> mod 2 ^ i" by simp
    also have "\<dots> = \<bar>m\<bar>" unfolding q_def by (rule div_mult_mod_eq)
    finally have "q * 2 ^ i < 2 ^ 53 * 2 ^ i" using lt by (rule le_less_trans)
    then have "q < 2 ^ 53" by (simp only: mult_less_cancel_right) simp
    moreover have "0 \<le> q" by (simp add: q_def pos_imp_zdiv_nonneg_iff)
    ultimately have q': "0 \<le> q'" "q' \<le> 2 ^ 53" by (simp_all add: q'_def)
    have "roundDouble m e = finiteDouble (sgn m * q') (e + k)"
      using False
      by (simp add: roundDouble_def k_def [symmetric] i_def [symmetric] q_def [symmetric]
          q'_def [symmetric] Let_def)
    moreover from False have "0 < k" by simp
    ultimately show ?thesis using q' k_def by (intro rounded [of k q'])
  qed
qed

lemma inRangeE:
  assumes "inRange x"
  obtains m e where "x = Float64 m e" "isDouble x" "m = 0 \<longrightarrow> e = 0" "m \<noteq> 0 \<longrightarrow> bitlen \<bar>m\<bar> + e \<le> 1022"
  using assms by (cases x) (auto simp: inRange_def isDouble_def split: if_splits)

lemma scaled_bound:
  assumes "m = 0 \<longrightarrow> e' = 0" and "m \<noteq> 0 \<longrightarrow> bitlen \<bar>m\<bar> + e' \<le> 1022" and "e \<le> e'" and "e \<le> 1021"
  shows "\<bar>m * 2 ^ nat (e' - e)\<bar> < 2 ^ nat (1022 - e)"
proof (cases "m = 0")
  case True
  then show ?thesis by simp
next
  case False
  with assms have "bitlen \<bar>m * 2 ^ nat (e' - e)\<bar> \<le> 1022 - e"
    by (simp add: bitlen_shift)
  then show ?thesis by (simp add: bitlen_le_iff_power)
qed

lemma exponent_bound:
  assumes "m = 0 \<longrightarrow> e = 0" and "m \<noteq> 0 \<longrightarrow> bitlen \<bar>m\<bar> + e \<le> 1022"
  shows "e \<le> 1021"
proof (cases "m = 0")
  case True
  with assms show ?thesis by simp
next
  case False
  then have "bitlen \<bar>m\<bar> \<noteq> 0" by (simp add: bitlen_eq_zero_iff)
  with bitlen_nonneg [of "\<bar>m\<bar>"] have "0 < bitlen \<bar>m\<bar>" by simp
  with False assms show ?thesis by simp
qed

text \<open>The sum of two doubles below \<open>2 ^ 1022\<close> in absolute value does not overflow.\<close>

lemma roundDouble_finite:
  assumes "\<bar>M\<bar> < 2 ^ nat (1023 - e)" and "e \<le> 1023"
  shows "isDouble (roundDouble M e)"
proof -
  from assms have bl: "bitlen \<bar>M\<bar> + e \<le> 1023"
    using bitlen_le_iff_power [of "\<bar>M\<bar>" "1023 - e"] by simp
  show ?thesis
  proof (cases M e rule: roundDouble_cases)
    case exact
    show ?thesis
    proof (cases "M = 0")
      case True
      then show ?thesis by (simp add: isDouble_def)
    next
      case False
      from exact(1) have "\<bar>M\<bar> \<le> 2 ^ 53" by (simp add: bitlen_le_iff_power)
      with False exact(2) bl have "isDouble (normalizeDouble M e)"
        by (intro normalizeDouble_isDouble) simp_all
      with False bl exact(3) show ?thesis by (simp add: finiteDouble_def)
    qed
  next
    case (rounded k q)
    show ?thesis
    proof (cases "sgn M * q = 0")
      case True
      with rounded(5) show ?thesis by (simp add: finiteDouble_def isDouble_def)
    next
      case False
      have a: "\<bar>sgn M * q\<bar> \<le> 2 ^ 53" using rounded(3,4) by (simp add: abs_mult abs_sgn_eq)
      then have "\<bar>sgn M * q\<bar> < 2 ^ 54" by simp
      then have b54: "bitlen \<bar>sgn M * q\<bar> \<le> 54" by (simp add: bitlen_le_iff_power)
      have lo: "- 1074 \<le> e + k" using rounded(2) by simp
      have hi: "bitlen \<bar>sgn M * q\<bar> + (e + k) \<le> 1024"
        using b54 bl rounded(2) by (simp add: max_def split: if_splits)
      from False a lo hi have "isDouble (normalizeDouble (sgn M * q) (e + k))"
        by (intro normalizeDouble_isDouble)
      with False hi rounded(5) show ?thesis by (simp add: finiteDouble_def)
    qed
  qed
qed

lemma minus_inRange:
  assumes "inRange x" and "inRange y"
  shows "isDouble (y - x)"
proof -
  from assms(1) obtain m1 e1 where x: "x = Float64 m1 e1"
    and x0: "m1 = 0 \<longrightarrow> e1 = 0" and xb: "m1 \<noteq> 0 \<longrightarrow> bitlen \<bar>m1\<bar> + e1 \<le> 1022"
    by (rule inRangeE)
  from assms(2) obtain m2 e2 where y: "y = Float64 m2 e2"
    and y0: "m2 = 0 \<longrightarrow> e2 = 0" and yb: "m2 \<noteq> 0 \<longrightarrow> bitlen \<bar>m2\<bar> + e2 \<le> 1022"
    by (rule inRangeE)
  define e where "e = min e2 e1"
  have e1021: "e \<le> 1021" using exponent_bound [OF x0 xb] by (simp add: e_def)
  define A where "A = m2 * 2 ^ nat (e2 - e)"
  define B where "B = - m1 * 2 ^ nat (e1 - e)"
  have "\<bar>A\<bar> < 2 ^ nat (1022 - e)" unfolding A_def
    by (rule scaled_bound [OF y0 yb _ e1021]) (simp add: e_def)
  moreover have "\<bar>B\<bar> < 2 ^ nat (1022 - e)"
    using scaled_bound [OF x0 xb _ e1021, of ] by (simp add: B_def e_def)
  ultimately have "\<bar>A + B\<bar> < 2 * 2 ^ nat (1022 - e)" by linarith
  also have "2 * (2::int) ^ nat (1022 - e) = 2 ^ Suc (nat (1022 - e))" by simp
  also have "Suc (nat (1022 - e)) = nat (1023 - e)" using e1021 by simp
  finally have "isDouble (roundDouble (A + B) e)"
    using e1021 by (intro roundDouble_finite) simp_all
  then show ?thesis
    by (simp add: x y minus_float64_def Let_def A_def B_def e_def)
qed

lemma inRange_isDouble: "inRange x \<Longrightarrow> isDouble x"
  by (simp add: inRange_def)

lemma interpolate_start:
  assumes "inRange x" and "inRange y"
  shows "x + (y - x) * (0::float64) = x"
  using assms by (simp add: minus_inRange times_zero_float64 plus_zero_float64 inRange_isDouble)

lemma interpolate_end:
  assumes "inRange x" and "inRange y"
  shows "x + (y - x) * (1::float64) = x + (y - x)"
  using assms by (simp add: minus_inRange times_one_finite)

text \<open>
  C9.  The claim: at progress 0 the interpolation returns exactly the "from" waypoint and
  at progress 1 exactly the "to" waypoint.  For waypoints whose coordinates are doubles
  below \<open>2 ^ 1022\<close> in absolute value: at progress 0 it returns exactly the "from"
  waypoint; at progress 1 it returns, component by component, the double sum
  \<open>from + (to - from)\<close>, in which the difference is rounded once and the sum once more.
  In exact arithmetic, read here over the reals, that sum is the "to" waypoint; in double
  arithmetic it need not be.
\<close>

theorem interpolatePosition_endpoints:
  fixes "from" to :: "float64 \<times> float64 \<times> float64" and a b :: "real \<times> real \<times> real"
  assumes "positionInRange from" and "positionInRange to"
  shows "interpolatePosition from to 0 = from \<and>
         interpolatePosition from to 1 =
           (fst from + (fst to - fst from),
            fst (snd from) + (fst (snd to) - fst (snd from)),
            snd (snd from) + (snd (snd to) - snd (snd from))) \<and>
         interpolatePosition a b 0 = a \<and>
         interpolatePosition a b 1 = b"
  using assms
  by (simp add: interpolatePosition_def positionInRange_def interpolate_start interpolate_end)

text \<open>
  The segment from longitude \<open>-2\<close> to longitude \<open>0.1\<close> (the double nearest to it,
  \<open>3602879701896397 / 2 ^ 55\<close>), at latitude 0 and altitude 50: progress 0 gives the
  "from" waypoint back.
\<close>

theorem interpolatePosition_endpoints_example:
  "positionInRange (Float64 (- 1) 1, Float64 0 0, Float64 25 1) \<and>
   positionInRange (Float64 3602879701896397 (- 55), Float64 0 0, Float64 25 1) \<and>
   interpolatePosition (Float64 (- 1) 1, Float64 0 0, Float64 25 1)
     (Float64 3602879701896397 (- 55), Float64 0 0, Float64 25 1) 0
   = (Float64 (- 1) 1, Float64 0 0, Float64 25 1)"
proof -
  have f: "positionInRange (Float64 (- 1) 1, Float64 0 0, Float64 25 1)" by code_simp
  have t: "positionInRange (Float64 3602879701896397 (- 55), Float64 0 0, Float64 25 1)"
    by code_simp
  from interpolatePosition_endpoints [OF f t, of "(0, 0, 0)" "(0, 0, 0)"]
  have "interpolatePosition (Float64 (- 1) 1, Float64 0 0, Float64 25 1)
     (Float64 3602879701896397 (- 55), Float64 0 0, Float64 25 1) 0
   = (Float64 (- 1) 1, Float64 0 0, Float64 25 1)" by (rule conjunct1)
  with f t show ?thesis by (intro conjI)
qed

text \<open>
  On the same segment progress 1 does not give the "to" waypoint back: \<open>0.1 - (-2)\<close>
  rounds to \<open>4728779608739021 / 2 ^ 51\<close>, and adding \<open>-2\<close> gives
  \<open>225179981368525 / 2 ^ 51\<close>, that is 0.10000000000000009, not the double nearest
  to 0.1.
\<close>

theorem interpolatePosition_end_inexact:
  "interpolatePosition (Float64 (- 1) 1, Float64 0 0, Float64 25 1)
     (Float64 3602879701896397 (- 55), Float64 0 0, Float64 25 1) 1
   = (Float64 225179981368525 (- 51), Float64 0 0, Float64 25 1) \<and>
   interpolatePosition (Float64 (- 1) 1, Float64 0 0, Float64 25 1)
     (Float64 3602879701896397 (- 55), Float64 0 0, Float64 25 1) 1
   \<noteq> (Float64 3602879701896397 (- 55), Float64 0 0, Float64 25 1)"
  by code_simp

text \<open>
  Why the coordinates are bounded: from the largest double with its sign changed to the
  largest double the difference overflows to an infinity, whose product with the progress
  0 is NaN.
\<close>

lemma interpolatePosition_overflow:
  "isDouble (Float64 9007199254740991 971) \<and>
   interpolatePosition (Float64 (- 9007199254740991) 971, Float64 0 0, Float64 25 1)
     (Float64 9007199254740991 971, Float64 0 0, Float64 25 1) 0
   = (NaN, Float64 0 0, Float64 25 1)"
  by code_simp

end
